theory Spec2Isabelle
  imports Main "HOL-Library.Sublist" "HOL-Library.Multiset"
begin

section \<open>The remote spreadsheet\<close>

text \<open>
  The program (\<^verbatim>\<open>src/sheets.js\<close>) keeps its records in three tabs of one remote
  spreadsheet. A tab is a grid of rows, a row a list of cell values; row 1 is the header
  and the data rows start at row 2. The remote state is the grids by tab title, together
  with the list of requests sent so far, so that the order of the requests and the
  absence of a request can be stated.
\<close>

type_synonym row = "string list"
type_synonym grid = "row list"

text \<open>
  The four shapes of A1 range the source builds: \<^verbatim>\<open>A1:D1\<close>, \<^verbatim>\<open>A2:D\<close>,
  \<^verbatim>\<open>A{n}:D{n}\<close> and \<^verbatim>\<open>D{n}:D{n}\<close>.
\<close>

datatype a1range = A1_D1 | A2_D | An_Dn nat | Dn_Dn nat

datatype call =
    Spreadsheets_get
  | BatchUpdate_addSheet "string list"
  | BatchUpdate_deleteDimension string nat nat
  | Values_get string a1range
  | Values_update string a1range row
  | Values_append string a1range row

record remote =
  sheets :: "string \<rightharpoonup> grid"
  calls :: "call list"

text \<open>A cell read as JavaScript reads an array element: \<open>None\<close> is \<^verbatim>\<open>undefined\<close>.\<close>

definition cellAt :: "row \<Rightarrow> nat \<Rightarrow> string option" where
  "cellAt r i = (if i < length r then Some (r ! i) else None)"

text \<open>\<^verbatim>\<open>row[i] ?? ''\<close>\<close>

definition cellOr :: "row \<Rightarrow> nat \<Rightarrow> string" where
  "cellOr r i = (case cellAt r i of None \<Rightarrow> [] | Some v \<Rightarrow> v)"

text \<open>
  Modelled from the spec: the remote spreadsheet service (sections 4.1 and 6) is an
  external collaborator whose code is not part of the repository. It is modelled as a
  store that answers every request: a grid holds the rows as a read reports them, a read
  of columns A to D reports the first four cells of each row, a write replaces the cells
  of its range and leaves the others, an append adds a row after the last one (at row 2
  at the earliest, the first row of the range \<^verbatim>\<open>A2:D\<close>), and deleting the rows
  from index \<open>s\<close> up to \<open>e\<close> (0-based, \<open>e\<close> excluded) shifts the later rows up.
  A request on a tab that does not exist changes nothing.
\<close>

definition rangeValues :: "grid \<Rightarrow> a1range \<Rightarrow> row list" where
  "rangeValues g r =
     (case r of
        A1_D1 \<Rightarrow> (case g of [] \<Rightarrow> [] | h # _ \<Rightarrow> (if take 4 h = [] then [] else [take 4 h]))
      | A2_D \<Rightarrow> map (take 4) (drop 1 g)
      | An_Dn n \<Rightarrow> (if 1 \<le> n \<and> n \<le> length g then [take 4 (g ! (n - 1))] else [])
      | Dn_Dn n \<Rightarrow> (if 1 \<le> n \<and> n \<le> length g then [take 1 (drop 3 (g ! (n - 1)))] else []))"

definition writeCells :: "row \<Rightarrow> nat \<Rightarrow> row \<Rightarrow> row" where
  "writeCells r col vs =
     take col (r @ replicate (col - length r) []) @ vs @ drop (col + length vs) r"

definition writeRowAt :: "grid \<Rightarrow> nat \<Rightarrow> nat \<Rightarrow> row \<Rightarrow> grid" where
  "writeRowAt g n col vs =
     (if n = 0 then g
      else (let g' = g @ replicate (n - length g) []
            in g'[n - 1 := writeCells (g' ! (n - 1)) col vs]))"

definition rangeWrite :: "grid \<Rightarrow> a1range \<Rightarrow> row \<Rightarrow> grid" where
  "rangeWrite g r vs =
     (case r of
        A1_D1 \<Rightarrow> writeRowAt g 1 0 vs
      | A2_D \<Rightarrow> writeRowAt g 2 0 vs
      | An_Dn n \<Rightarrow> writeRowAt g n 0 vs
      | Dn_Dn n \<Rightarrow> writeRowAt g n 3 vs)"

definition appendRow :: "grid \<Rightarrow> row \<Rightarrow> grid" where
  "appendRow g vs = (if g = [] then [[]] else g) @ [vs]"

definition deleteRows :: "grid \<Rightarrow> nat \<Rightarrow> nat \<Rightarrow> grid" where
  "deleteRows g s e = (if s < e then take s g @ drop e g else g)"

definition logCall :: "call \<Rightarrow> remote \<Rightarrow> remote" where
  "logCall c st = st\<lparr>calls := calls st @ [c]\<rparr>"

definition onSheet :: "string \<Rightarrow> (grid \<Rightarrow> grid) \<Rightarrow> remote \<Rightarrow> remote" where
  "onSheet name f st =
     (case sheets st name of
        None \<Rightarrow> st
      | Some g \<Rightarrow> st\<lparr>sheets := (sheets st)(name \<mapsto> f g)\<rparr>)"

text \<open>
  Modelled from the spec: the request \<^verbatim>\<open>sheetsApi.spreadsheets.get\<close> of the remote
  service, which reports the titles of the tabs that exist.
\<close>

definition spreadsheets_get :: "remote \<Rightarrow> (string \<Rightarrow> bool) \<times> remote" where
  "spreadsheets_get st = (\<lambda>t. sheets st t \<noteq> None, logCall Spreadsheets_get st)"

text \<open>
  Modelled from the spec: the request \<^verbatim>\<open>sheetsApi.spreadsheets.batchUpdate\<close> of the
  remote service with \<^verbatim>\<open>addSheet\<close> requests, which creates the tabs, empty.
\<close>

definition batchUpdate_addSheet :: "string list \<Rightarrow> remote \<Rightarrow> remote" where
  "batchUpdate_addSheet titles st =
     logCall (BatchUpdate_addSheet titles)
       (st\<lparr>sheets := fold (\<lambda>t m. m(t \<mapsto> [])) titles (sheets st)\<rparr>)"

text \<open>
  Modelled from the spec: the request \<^verbatim>\<open>sheetsApi.spreadsheets.batchUpdate\<close> of the
  remote service with one \<^verbatim>\<open>deleteDimension\<close> request on rows.
\<close>

definition batchUpdate_deleteDimension :: "string \<Rightarrow> nat \<Rightarrow> nat \<Rightarrow> remote \<Rightarrow> remote" where
  "batchUpdate_deleteDimension name s e st =
     logCall (BatchUpdate_deleteDimension name s e) (onSheet name (\<lambda>g. deleteRows g s e) st)"

text \<open>
  Modelled from the spec: the request \<^verbatim>\<open>sheetsApi.spreadsheets.values.get\<close> of the
  remote service; the result is \<^verbatim>\<open>resp.data.values || []\<close>.
\<close>

definition values_get :: "string \<Rightarrow> a1range \<Rightarrow> remote \<Rightarrow> row list \<times> remote" where
  "values_get name r st =
     ((case sheets st name of None \<Rightarrow> [] | Some g \<Rightarrow> rangeValues g r),
      logCall (Values_get name r) st)"

text \<open>
  Modelled from the spec: the request \<^verbatim>\<open>sheetsApi.spreadsheets.values.update\<close> of
  the remote service with \<^verbatim>\<open>values: [vs]\<close>; the source always writes one row.
\<close>

definition values_update :: "string \<Rightarrow> a1range \<Rightarrow> row \<Rightarrow> remote \<Rightarrow> remote" where
  "values_update name r vs st =
     logCall (Values_update name r vs) (onSheet name (\<lambda>g. rangeWrite g r vs) st)"

text \<open>
  Modelled from the spec: the request \<^verbatim>\<open>sheetsApi.spreadsheets.values.append\<close> of
  the remote service with \<^verbatim>\<open>values: [vs]\<close>; the source always appends one row.
\<close>

definition values_append :: "string \<Rightarrow> a1range \<Rightarrow> row \<Rightarrow> remote \<Rightarrow> remote" where
  "values_append name r vs st =
     logCall (Values_append name r vs) (onSheet name (\<lambda>g. appendRow g vs) st)"

section \<open>Constants and the partition resolver\<close>

definition MONADIANS :: string where "MONADIANS = ''Monadians''"
definition MONARCH :: string where "MONARCH = ''Monarch''"
definition MONALISTA :: string where "MONALISTA = ''Monalista''"

text \<open>\<^verbatim>\<open>Object.values(SHEET_NAMES)\<close>, in the order of the object literal.\<close>

definition SHEET_NAMES :: "string list" where
  "SHEET_NAMES = [MONADIANS, MONARCH, MONALISTA]"

definition HEADER_ROW :: row where
  "HEADER_ROW = [''Discord Username'', ''Discord ID'', ''EVM Wallet'', ''Role'']"

text \<open>
  \<^verbatim>\<open>String.prototype.toLowerCase\<close> on the letters A to Z. A string is a list of bytes
  here; a character outside ASCII is left as it is. JavaScript lowers some of them, but
  never to a string of the letters the resolver compares with (the only capital outside
  ASCII that lowers to an ASCII letter alone is the Kelvin sign, to k), so the resolver
  answers \<^verbatim>\<open>null\<close> for such a label in both.
\<close>

definition toLowerCase_char :: "char \<Rightarrow> char" where
  "toLowerCase_char c =
     (case map_of (zip ''ABCDEFGHIJKLMNOPQRSTUVWXYZ'' ''abcdefghijklmnopqrstuvwxyz'') c of
        None \<Rightarrow> c
      | Some d \<Rightarrow> d)"

definition toLowerCase :: "string \<Rightarrow> string" where
  "toLowerCase s = map toLowerCase_char s"

text \<open>
  \<^verbatim>\<open>getSheetNameForRole(role)\<close>; the role is \<open>None\<close> when it is
  \<^verbatim>\<open>undefined\<close> or \<^verbatim>\<open>null\<close>, and \<^verbatim>\<open>role || ''\<close> is then the empty string.
\<close>

definition getSheetNameForRole :: "string option \<Rightarrow> string option" where
  "getSheetNameForRole role =
     (let normalized = toLowerCase (case role of None \<Rightarrow> [] | Some r \<Rightarrow> r)
      in if normalized = ''monadian'' then Some MONADIANS
         else if normalized = ''monarch'' then Some MONARCH
         else if normalized = ''monalista'' then Some MONALISTA
         else None)"

text \<open>
  Equality of two labels up to the case of the letters A to Z, stated without the
  lowering function: the characters agree position by position, or are the capital and
  the small form of one letter.
\<close>

definition sameLetter :: "char \<Rightarrow> char \<Rightarrow> bool" where
  "sameLetter x y \<longleftrightarrow>
     x = y
     \<or> (x, y) \<in> set (zip ''ABCDEFGHIJKLMNOPQRSTUVWXYZ'' ''abcdefghijklmnopqrstuvwxyz'')
     \<or> (y, x) \<in> set (zip ''ABCDEFGHIJKLMNOPQRSTUVWXYZ'' ''abcdefghijklmnopqrstuvwxyz'')"

definition sameLabel :: "string \<Rightarrow> string \<Rightarrow> bool" where
  "sameLabel a b \<longleftrightarrow> list_all2 sameLetter a b"

section \<open>The retry policy\<close>















section \<open>Setting up the tabs\<close>

text \<open>
  In the operations below every request is answered at its first attempt, so
  \<^verbatim>\<open>callWithRetry(() => request)\<close> is the request.
\<close>

text \<open>\<^verbatim>\<open>firstRow.length === 0 || HEADER_ROW.some((h, i) => firstRow[i] !== h)\<close>\<close>

definition headerNeedsWrite :: "row \<Rightarrow> bool" where
  "headerNeedsWrite firstRow \<longleftrightarrow>
     length firstRow = 0
     \<or> list_ex (\<lambda>(h, i). cellAt firstRow i \<noteq> Some h) (zip HEADER_ROW [0..<length HEADER_ROW])"

text \<open>The body of the second loop of \<^verbatim>\<open>ensureSheetSetup\<close>.\<close>

definition ensureHeader :: "string \<Rightarrow> remote \<Rightarrow> remote" where
  "ensureHeader sheetName st =
     (case values_get sheetName A1_D1 st of
        (vals, st1) \<Rightarrow>
          (let firstRow = (case vals of [] \<Rightarrow> [] | r # _ \<Rightarrow> r)
           in if headerNeedsWrite firstRow then values_update sheetName A1_D1 HEADER_ROW st1
              else st1))"

definition ensureSheetSetup :: "remote \<Rightarrow> remote" where
  "ensureSheetSetup st =
     (case spreadsheets_get st of
        (existingSheets, st1) \<Rightarrow>
          (let sheetsToCreate = filter (\<lambda>sheetName. \<not> existingSheets sheetName) SHEET_NAMES;
               st2 = (if length sheetsToCreate > 0 then batchUpdate_addSheet sheetsToCreate st1
                      else st1)
           in fold ensureHeader SHEET_NAMES st2))"

section \<open>Deleting a row\<close>

text \<open>
  \<^verbatim>\<open>deleteRowFromSheet(sheetName, rowNumber)\<close>. A row number is a natural number: the
  callers pass \<^verbatim>\<open>i + 2\<close> for an array index \<^verbatim>\<open>i\<close>, an integer checked to be at
  least 2, or the row number of a transition. The tab is addressed by its title here,
  where the source looks up its \<^verbatim>\<open>sheetId\<close>; when no tab has the title, the
  function returns after the lookup.
\<close>

definition deleteRowFromSheet :: "string \<Rightarrow> nat \<Rightarrow> remote \<Rightarrow> remote" where
  "deleteRowFromSheet sheetName rowNumber st =
     (case spreadsheets_get st of
        (titles, st1) \<Rightarrow>
          (if \<not> titles sheetName then st1
           else batchUpdate_deleteDimension sheetName (rowNumber - 1) rowNumber st1))"

section \<open>Upsert\<close>

record upsert_args =
  discordId :: string
  discordUsername :: string
  wallet :: string
  role :: "string option"

datatype action = Inserted | Updated | Skipped

text \<open>
  The inner loop of the scan: the index of the first row whose second cell is the
  identifier (\<^verbatim>\<open>rows[i][1] === discordId\<close>).
\<close>

fun findRowIndex :: "string \<Rightarrow> row list \<Rightarrow> nat \<Rightarrow> nat option" where
  "findRowIndex did [] i = None"
| "findRowIndex did (r # rs) i =
     (if cellAt r 1 = Some did then Some i else findRowIndex did rs (Suc i))"

text \<open>The outer loop: the tabs in order, stopping at the first tab with a match.\<close>

fun findExisting :: "string \<Rightarrow> string list \<Rightarrow> remote \<Rightarrow> (string \<times> nat) option \<times> remote" where
  "findExisting did [] st = (None, st)"
| "findExisting did (sheetName # rest) st =
     (case values_get sheetName A2_D st of
        (rows, st1) \<Rightarrow>
          (case findRowIndex did rows 0 of
             Some i \<Rightarrow> (Some (sheetName, i + 2), st1)
           | None \<Rightarrow> findExisting did rest st1))"

definition roleOrEmpty :: "string option \<Rightarrow> string" where
  "roleOrEmpty r = (case r of None \<Rightarrow> [] | Some s \<Rightarrow> s)"

definition upsertWallet :: "upsert_args \<Rightarrow> remote \<Rightarrow> action \<times> remote" where
  "upsertWallet args st0 =
     (let st1 = ensureSheetSetup st0
      in case getSheetNameForRole (role args) of
           None \<Rightarrow> (Skipped, st1)
         | Some targetSheet \<Rightarrow>
             (case findExisting (discordId args) SHEET_NAMES st1 of
                (found, st2) \<Rightarrow>
                  (case (case found of
                           None \<Rightarrow> (None, st2)
                         | Some (sheetName, rowNumber) \<Rightarrow>
                             (if sheetName \<noteq> targetSheet
                              then (None, deleteRowFromSheet sheetName rowNumber st2)
                              else (Some (sheetName, rowNumber), st2))) of
                     (existingLocation, st3) \<Rightarrow>
                       (let values = [discordUsername args, discordId args, wallet args,
                                      roleOrEmpty (role args)]
                        in case existingLocation of
                             None \<Rightarrow> (Inserted, values_append targetSheet A2_D values st3)
                           | Some (sheetName, rowNumber) \<Rightarrow>
                               (Updated,
                                values_update targetSheet (An_Dn rowNumber) values st3)))))"

section \<open>Reading\<close>

text \<open>
  The result of \<^verbatim>\<open>getWallet\<close>: \<^verbatim>\<open>row[0]\<close> and \<^verbatim>\<open>row[2]\<close> may be
  \<^verbatim>\<open>undefined\<close>, the role is \<^verbatim>\<open>row[3] ?? ''\<close>.
\<close>

record wallet_found =
  found_discordUsername :: "string option"
  found_discordId :: string
  found_wallet :: "string option"
  found_role :: string

fun getWallet_rows :: "string \<Rightarrow> row list \<Rightarrow> wallet_found option" where
  "getWallet_rows did [] = None"
| "getWallet_rows did (r # rs) =
     (if cellAt r 1 = Some did
      then Some \<lparr>found_discordUsername = cellAt r 0, found_discordId = did,
                 found_wallet = cellAt r 2, found_role = cellOr r 3\<rparr>
      else getWallet_rows did rs)"

fun getWallet_sheets :: "string \<Rightarrow> string list \<Rightarrow> remote \<Rightarrow> wallet_found option \<times> remote" where
  "getWallet_sheets did [] st = (None, st)"
| "getWallet_sheets did (sheetName # rest) st =
     (case values_get sheetName A2_D st of
        (rows, st1) \<Rightarrow>
          (case getWallet_rows did rows of
             Some w \<Rightarrow> (Some w, st1)
           | None \<Rightarrow> getWallet_sheets did rest st1))"

definition getWallet :: "string \<Rightarrow> remote \<Rightarrow> wallet_found option \<times> remote" where
  "getWallet did st0 = getWallet_sheets did SHEET_NAMES (ensureSheetSetup st0)"

record wallet_listed =
  listed_discordUsername :: string
  listed_discordId :: string
  listed_wallet :: string
  listed_role :: string

definition listWallets_sheet :: "string \<Rightarrow> wallet_listed list \<times> remote \<Rightarrow> wallet_listed list \<times> remote" where
  "listWallets_sheet sheetName acc =
     (case acc of
        (items, st) \<Rightarrow>
          (case values_get sheetName A2_D st of
             (rows, st1) \<Rightarrow>
               (items @ map (\<lambda>r. \<lparr>listed_discordUsername = cellOr r 0, listed_discordId = cellOr r 1,
                                   listed_wallet = cellOr r 2, listed_role = cellOr r 3\<rparr>)
                          (filter (\<lambda>r. length r \<noteq> 0) rows),
                st1)))"

definition listWallets :: "remote \<Rightarrow> wallet_listed list \<times> remote" where
  "listWallets st0 = fold listWallets_sheet SHEET_NAMES ([], ensureSheetSetup st0)"

record wallet_item =
  item_sheetName :: string
  item_rowNumber :: nat
  item_discordUsername :: string
  item_discordId :: string
  item_wallet :: string
  item_role :: string

fun listRows :: "string \<Rightarrow> row list \<Rightarrow> nat \<Rightarrow> wallet_item list" where
  "listRows sheetName [] i = []"
| "listRows sheetName (r # rs) i =
     (if length r = 0 then listRows sheetName rs (Suc i)
      else \<lparr>item_sheetName = sheetName, item_rowNumber = i + 2,
             item_discordUsername = cellOr r 0, item_discordId = cellOr r 1,
             item_wallet = cellOr r 2, item_role = cellOr r 3\<rparr>
           # listRows sheetName rs (Suc i))"

definition listWalletsWithRow_sheet :: "string \<Rightarrow> wallet_item list \<times> remote \<Rightarrow> wallet_item list \<times> remote" where
  "listWalletsWithRow_sheet sheetName acc =
     (case acc of
        (items, st) \<Rightarrow>
          (case values_get sheetName A2_D st of
             (rows, st1) \<Rightarrow> (items @ listRows sheetName rows 0, st1)))"

definition listWalletsWithRow :: "remote \<Rightarrow> wallet_item list \<times> remote" where
  "listWalletsWithRow st0 = fold listWalletsWithRow_sheet SHEET_NAMES ([], ensureSheetSetup st0)"

section \<open>Batch role updates\<close>

record role_update =
  upd_sheetName :: string
  upd_rowNumber :: nat
  upd_discordId :: string
  upd_discordUsername :: string
  upd_wallet :: string
  upd_newRole :: "string option"

text \<open>
  The body of the loop of \<^verbatim>\<open>batchUpdateRoles\<close>, on the two counters and the remote
  state.
\<close>

definition batchUpdateRoles_step :: "role_update \<Rightarrow> nat \<times> nat \<times> remote \<Rightarrow> nat \<times> nat \<times> remote" where
  "batchUpdateRoles_step update acc =
     (case acc of
        (updated, moved, st) \<Rightarrow>
          (case getSheetNameForRole (upd_newRole update) of
             None \<Rightarrow>
               (updated + 1, moved, deleteRowFromSheet (upd_sheetName update) (upd_rowNumber update) st)
           | Some targetSheet \<Rightarrow>
               (if upd_sheetName update \<noteq> targetSheet
                then (let st1 = deleteRowFromSheet (upd_sheetName update) (upd_rowNumber update) st;
                          st2 = snd (upsertWallet
                                  \<lparr>discordId = upd_discordId update,
                                   discordUsername = upd_discordUsername update,
                                   wallet = upd_wallet update, role = upd_newRole update\<rparr> st1)
                      in (updated, moved + 1, st2))
                else (updated + 1, moved,
                      values_update (upd_sheetName update) (Dn_Dn (upd_rowNumber update))
                        [roleOrEmpty (upd_newRole update)] st))))"

text \<open>
  \<^verbatim>\<open>batchUpdateRoles(updates)\<close>; the argument is \<open>None\<close> when it is not an array. The
  result is \<^verbatim>\<open>{ updated, moved }\<close> and the remote state.
\<close>

definition batchUpdateRoles :: "role_update list option \<Rightarrow> remote \<Rightarrow> (nat \<times> nat) \<times> remote" where
  "batchUpdateRoles updates st0 =
     (case updates of
        None \<Rightarrow> ((0, 0), st0)
      | Some us \<Rightarrow>
          (if length us = 0 then ((0, 0), st0)
           else (case fold batchUpdateRoles_step us (0, 0, ensureSheetSetup st0) of
                   (updated, moved, st) \<Rightarrow> ((updated, moved), st))))"

section \<open>Batch deletion\<close>

text \<open>
  An item of \<^verbatim>\<open>batchDeleteRows\<close>: the sheet name is \<open>None\<close> when the item has none
  (\<^verbatim>\<open>undefined\<close> or \<^verbatim>\<open>null\<close>), the row number is \<open>None\<close> when
  \<^verbatim>\<open>Number.isInteger\<close> rejects it.
\<close>

record delete_item =
  del_sheetName :: "string option"
  del_rowNumber :: "int option"

datatype js_error = TypeError

text \<open>
  \<^verbatim>\<open>bySheet\<close> is a plain object used as a dictionary; it is an association list in
  the order in which the keys were added. A key that the object does not own is still
  found when \<^verbatim>\<open>Object.prototype\<close> has a property of that name.
\<close>

type_synonym by_sheet = "(string \<times> int list) list"

definition Object_prototype_keys :: "string list" where
  "Object_prototype_keys =
     [''constructor'', ''__defineGetter__'', ''__defineSetter__'', ''hasOwnProperty'',
      ''__lookupGetter__'', ''__lookupSetter__'', ''isPrototypeOf'', ''propertyIsEnumerable'',
      ''toString'', ''valueOf'', ''__proto__'', ''toLocaleString'']"

fun pushRow :: "string \<Rightarrow> int \<Rightarrow> by_sheet \<Rightarrow> by_sheet" where
  "pushRow s n [] = []"
| "pushRow s n ((k, ns) # rest) =
     (if k = s then (k, ns @ [n]) # rest else (k, ns) # pushRow s n rest)"

text \<open>
  The body of the grouping loop. An item without a sheet name (or with the empty
  string, which is falsy too), with a row number that is no integer or with one below 2
  is skipped. For a key inherited from \<^verbatim>\<open>Object.prototype\<close> the test
  \<^verbatim>\<open>!bySheet[sheetName]\<close> is false, no array is stored, and
  \<^verbatim>\<open>bySheet[sheetName].push\<close> is not a function: the call throws a TypeError.
\<close>

definition groupItem :: "delete_item \<Rightarrow> by_sheet \<Rightarrow> js_error + by_sheet" where
  "groupItem item bySheet =
     (case del_sheetName item of
        None \<Rightarrow> Inr bySheet
      | Some s \<Rightarrow>
          (case del_rowNumber item of
             None \<Rightarrow> Inr bySheet
           | Some n \<Rightarrow>
               (if s = [] \<or> n < 2 then Inr bySheet
                else (case map_of bySheet s of
                        Some ns \<Rightarrow> Inr (pushRow s n bySheet)
                      | None \<Rightarrow>
                          (if s \<in> set Object_prototype_keys then Inl TypeError
                           else Inr (bySheet @ [(s, [n])]))))))"

fun groupItems :: "delete_item list \<Rightarrow> by_sheet \<Rightarrow> js_error + by_sheet" where
  "groupItems [] bySheet = Inr bySheet"
| "groupItems (item # items) bySheet =
     (case groupItem item bySheet of
        Inl e \<Rightarrow> Inl e
      | Inr bySheet' \<Rightarrow> groupItems items bySheet')"

text \<open>
  \<^verbatim>\<open>Object.entries\<close> lists the keys that are array indices (the decimal numeral,
  without leading zeros, of a number below \<open>2\<^sup>3\<^sup>2 - 1\<close>) first, in ascending numeric
  order, and then the other keys in the order in which they were added.
\<close>

definition digitValue :: "char \<Rightarrow> int option" where
  "digitValue c = map_of (zip ''0123456789'' [0, 1, 2, 3, 4, 5, 6, 7, 8, 9]) c"

definition numeralValue :: "string \<Rightarrow> int" where
  "numeralValue s = fold (\<lambda>c n. 10 * n + (case digitValue c of None \<Rightarrow> 0 | Some d \<Rightarrow> d)) s 0"

definition isArrayIndex :: "string \<Rightarrow> bool" where
  "isArrayIndex s \<longleftrightarrow>
     s \<noteq> [] \<and> list_all (\<lambda>c. digitValue c \<noteq> None) s
     \<and> (s = ''0'' \<or> take 1 s \<noteq> ''0'') \<and> numeralValue s < 4294967295"

definition Object_entries :: "by_sheet \<Rightarrow> by_sheet" where
  "Object_entries bySheet =
     sort_key (\<lambda>e. numeralValue (fst e)) (filter (\<lambda>e. isArrayIndex (fst e)) bySheet)
     @ filter (\<lambda>e. \<not> isArrayIndex (fst e)) bySheet"

text \<open>\<^verbatim>\<open>Array.from(new Set(rowNumbers)).sort((a, b) => b - a)\<close>\<close>

definition sortedDescending :: "int list \<Rightarrow> int list" where
  "sortedDescending rowNumbers = rev (sort (remdups rowNumbers))"

text \<open>The body of the deletion loop, for one entry of \<^verbatim>\<open>bySheet\<close>.\<close>

definition deleteSheetRows :: "string \<times> int list \<Rightarrow> nat \<times> remote \<Rightarrow> nat \<times> remote" where
  "deleteSheetRows entry acc =
     (case entry of
        (sheetName, rowNumbers) \<Rightarrow>
          fold (\<lambda>rowNumber acc'.
                  (case acc' of
                     (deleted, st) \<Rightarrow> (deleted + 1, deleteRowFromSheet sheetName (nat rowNumber) st)))
               (sortedDescending rowNumbers) acc)"

text \<open>
  \<^verbatim>\<open>batchDeleteRows(items)\<close>; the argument is \<open>None\<close> when it is not an array. The
  result is \<^verbatim>\<open>deleted\<close> and the remote state, or the error thrown and the remote
  state at that moment.
\<close>

definition batchDeleteRows ::
  "delete_item list option \<Rightarrow> remote \<Rightarrow> (js_error \<times> remote) + (nat \<times> remote)"
where
  "batchDeleteRows items st0 =
     (let st1 = ensureSheetSetup st0
      in case items of
           None \<Rightarrow> Inr (0, st1)
         | Some its \<Rightarrow>
             (if length its = 0 then Inr (0, st1)
              else (case groupItems its [] of
                      Inl e \<Rightarrow> Inl (e, st1)
                    | Inr bySheet \<Rightarrow> Inr (fold deleteSheetRows (Object_entries bySheet) (0, st1)))))"

section \<open>Notions used in the statements\<close>

text \<open>
  The grid of a tab (empty when the tab does not exist), the header cells (what a read of
  \<^verbatim>\<open>A1:D1\<close> reports), the data rows (what a read of \<^verbatim>\<open>A2:D\<close> reports), the rows
  that bear an identifier in the identity column, and the requests sent between two
  states.
\<close>

definition gridOf :: "remote \<Rightarrow> string \<Rightarrow> grid" where
  "gridOf st n = (case sheets st n of None \<Rightarrow> [] | Some g \<Rightarrow> g)"

definition headerOf :: "grid \<Rightarrow> row" where
  "headerOf g = take 4 (case g of [] \<Rightarrow> [] | h # _ \<Rightarrow> h)"

definition headerCells :: "remote \<Rightarrow> string \<Rightarrow> row" where
  "headerCells st n = headerOf (gridOf st n)"

definition dataRowsOf :: "grid \<Rightarrow> row list" where
  "dataRowsOf g = map (take 4) (drop 1 g)"

definition dataRows :: "remote \<Rightarrow> string \<Rightarrow> row list" where
  "dataRows st n = dataRowsOf (gridOf st n)"

definition bears :: "string \<Rightarrow> row \<Rightarrow> bool" where
  "bears did r \<longleftrightarrow> cellAt r 1 = Some did"

definition rowsBearing :: "string \<Rightarrow> remote \<Rightarrow> string \<Rightarrow> row list" where
  "rowsBearing did st n = filter (bears did) (dataRows st n)"

definition newCalls :: "remote \<Rightarrow> remote \<Rightarrow> call list" where
  "newCalls st st' = drop (length (calls st)) (calls st')"

text \<open>A request that writes or deletes below the header row, or may do so.\<close>

fun touchesData :: "call \<Rightarrow> bool" where
  "touchesData Spreadsheets_get = False"
| "touchesData (BatchUpdate_addSheet titles) = False"
| "touchesData (BatchUpdate_deleteDimension n s e) = True"
| "touchesData (Values_get n r) = False"
| "touchesData (Values_update n r vs) = (r \<noteq> A1_D1)"
| "touchesData (Values_append n r vs) = True"

text \<open>The grid with its header cells set to the schema, unless they are the schema already.\<close>

definition fixHeader :: "grid \<Rightarrow> grid" where
  "fixHeader g = (if headerOf g = HEADER_ROW then g else rangeWrite g A1_D1 HEADER_ROW)"

text \<open>The requests of \<^verbatim>\<open>ensureSheetSetup\<close> for the header of one tab.\<close>

definition headerCalls :: "remote \<Rightarrow> string \<Rightarrow> call list" where
  "headerCalls st n =
     Values_get n A1_D1
     # (if headerCells st n = HEADER_ROW then [] else [Values_update n A1_D1 HEADER_ROW])"

text \<open>
  The tabs that \<^verbatim>\<open>ensureSheetSetup\<close> finds missing, and all the requests it sends
  from a state.
\<close>

definition missingSheets :: "remote \<Rightarrow> string list" where
  "missingSheets st = filter (\<lambda>n. sheets st n = None) SHEET_NAMES"

definition setupCalls :: "remote \<Rightarrow> call list" where
  "setupCalls st =
     Spreadsheets_get
     # (if missingSheets st = [] then [] else [BatchUpdate_addSheet (missingSheets st)])
     @ concat (map (headerCalls st) SHEET_NAMES)"

text \<open>
  The record locator in the words of the specification: the first tab, in the priority
  order, that has a row bearing the identifier; the position of the first such row among
  the data rows of a tab; the location of that row (its row number is its position plus 2,
  the header being row 1); and the record read from a row.
\<close>

definition firstSheetWith :: "string \<Rightarrow> remote \<Rightarrow> string option" where
  "firstSheetWith did st =
     (case filter (\<lambda>n. rowsBearing did st n \<noteq> []) SHEET_NAMES of
        [] \<Rightarrow> None
      | n # _ \<Rightarrow> Some n)"

definition firstRowIndex :: "string \<Rightarrow> row list \<Rightarrow> nat" where
  "firstRowIndex did rows = length (takeWhile (\<lambda>r. \<not> bears did r) rows)"

definition located :: "string \<Rightarrow> remote \<Rightarrow> (string \<times> nat) option" where
  "located did st =
     map_option (\<lambda>n. (n, firstRowIndex did (dataRows st n) + 2)) (firstSheetWith did st)"

definition foundRecord :: "string \<Rightarrow> row \<Rightarrow> wallet_found" where
  "foundRecord did r =
     \<lparr>found_discordUsername = cellAt r 0, found_discordId = did,
      found_wallet = cellAt r 2, found_role = cellOr r 3\<rparr>"

text \<open>The row that \<^verbatim>\<open>upsertWallet\<close> writes.\<close>

definition rowOf :: "upsert_args \<Rightarrow> row" where
  "rowOf args = [discordUsername args, discordId args, wallet args, roleOrEmpty (role args)]"

text \<open>
  The tabs that hold a row bearing an identifier, and all the rows bearing it in the
  three tabs.
\<close>

definition partitionsHolding :: "string \<Rightarrow> remote \<Rightarrow> string list" where
  "partitionsHolding did st = filter (\<lambda>n. rowsBearing did st n \<noteq> []) SHEET_NAMES"

definition allRowsBearing :: "string \<Rightarrow> remote \<Rightarrow> row list" where
  "allRowsBearing did st = concat (map (rowsBearing did st) SHEET_NAMES)"

text \<open>
  A transition of \<^verbatim>\<open>batchUpdateRoles\<close> moves a row when its new role resolves to a
  tab other than the one it is in. The effect of one transition on the remote state is
  the state that the body of the loop returns.
\<close>

definition movesSheet :: "role_update \<Rightarrow> bool" where
  "movesSheet u =
     (case getSheetNameForRole (upd_newRole u) of
        None \<Rightarrow> False
      | Some t \<Rightarrow> upd_sheetName u \<noteq> t)"

definition applyUpdate :: "role_update \<Rightarrow> remote \<Rightarrow> remote" where
  "applyUpdate u st = snd (snd (batchUpdateRoles_step u (0, 0, st)))"

text \<open>
  The row stored for a transition that moves: the four cells that \<^verbatim>\<open>upsertWallet\<close>
  writes for the username, the identifier, the wallet and the new role of the transition.
\<close>

definition movedRow :: "role_update \<Rightarrow> row" where
  "movedRow u = [upd_discordUsername u, upd_discordId u, upd_wallet u, roleOrEmpty (upd_newRole u)]"

text \<open>
  The rows deleted by a list of requests, in the order of the requests: the tab and the
  row number (the end index of the deleted range).
\<close>

fun deletedRow :: "call \<Rightarrow> (string \<times> nat) list" where
  "deletedRow (BatchUpdate_deleteDimension n s e) = [(n, e)]"
| "deletedRow Spreadsheets_get = []"
| "deletedRow (BatchUpdate_addSheet titles) = []"
| "deletedRow (Values_get n r) = []"
| "deletedRow (Values_update n r vs) = []"
| "deletedRow (Values_append n r vs) = []"

definition deletions :: "call list \<Rightarrow> (string \<times> nat) list" where
  "deletions cs = concat (map deletedRow cs)"

text \<open>
  The valid pairs of a list of items of \<^verbatim>\<open>batchDeleteRows\<close>, in the order of the
  items: the sheet name is present and not empty, the row number is an integer and at
  least 2. The row numbers given for one tab, the rows stored for a tab in
  \<^verbatim>\<open>bySheet\<close>, and the rows deleted in one tab by a list of deletions.
\<close>

definition validPair :: "delete_item \<Rightarrow> (string \<times> int) list" where
  "validPair item =
     (case del_sheetName item of
        None \<Rightarrow> []
      | Some s \<Rightarrow>
          (case del_rowNumber item of
             None \<Rightarrow> []
           | Some n \<Rightarrow> (if s = [] \<or> n < 2 then [] else [(s, n)])))"

definition validPairs :: "delete_item list \<Rightarrow> (string \<times> int) list" where
  "validPairs items = concat (map validPair items)"

definition rowsFor :: "string \<Rightarrow> (string \<times> int) list \<Rightarrow> int list" where
  "rowsFor s ps = map snd (filter (\<lambda>p. fst p = s) ps)"

definition stored :: "by_sheet \<Rightarrow> string \<Rightarrow> int list" where
  "stored bySheet s = (case map_of bySheet s of None \<Rightarrow> [] | Some ns \<Rightarrow> ns)"

definition deletionsIn :: "string \<Rightarrow> (string \<times> nat) list \<Rightarrow> nat list" where
  "deletionsIn s ds = map snd (filter (\<lambda>d. fst d = s) ds)"

text \<open>The three items of the example of the specification, for the tab Monadians.\<close>

definition exampleItems :: "delete_item list" where
  "exampleItems =
     [\<lparr>del_sheetName = Some MONADIANS, del_rowNumber = Some 2\<rparr>,
      \<lparr>del_sheetName = Some MONADIANS, del_rowNumber = Some 5\<rparr>,
      \<lparr>del_sheetName = Some MONADIANS, del_rowNumber = Some 3\<rparr>]"

text \<open>Concrete states and arguments for the examples.\<close>

definition emptyRemote :: remote where
  "emptyRemote = \<lparr>sheets = Map.empty, calls = []\<rparr>"

definition aliceArgs :: upsert_args where
  "aliceArgs =
     \<lparr>discordId = ''u1'', discordUsername = ''alice'', wallet = ''0xabc'',
      role = Some ''Monadian''\<rparr>"

text \<open>The tab Monarch holds the row of user \<open>u1\<close>.\<close>

definition storedRemote :: remote where
  "storedRemote =
     \<lparr>sheets = [MONARCH \<mapsto> [HEADER_ROW, [''alice'', ''u1'', ''0xabc'', ''Monarch'']]],
      calls = []\<rparr>"

text \<open>
  The tab Monadians holds the rows of the users \<open>u1\<close>, \<open>u2\<close> and \<open>u3\<close>, at the
  rows 2, 3 and 4; the two transitions are those of a refresh after \<open>u1\<close> and \<open>u2\<close>
  lost their role, with the locations of that snapshot.
\<close>

definition threeRemote :: remote where
  "threeRemote =
     \<lparr>sheets = [MONADIANS \<mapsto> [HEADER_ROW, [''ann'', ''u1'', ''0x1'', ''Monadian''],
                                [''ben'', ''u2'', ''0x2'', ''Monadian''],
                                [''cat'', ''u3'', ''0x3'', ''Monadian'']]],
      calls = []\<rparr>"

definition lostRole1 :: role_update where
  "lostRole1 =
     \<lparr>upd_sheetName = MONADIANS, upd_rowNumber = 2, upd_discordId = ''u1'',
      upd_discordUsername = ''ann'', upd_wallet = ''0x1'', upd_newRole = Some []\<rparr>"

definition lostRole2 :: role_update where
  "lostRole2 =
     \<lparr>upd_sheetName = MONADIANS, upd_rowNumber = 3, upd_discordId = ''u2'',
      upd_discordUsername = ''ben'', upd_wallet = ''0x2'', upd_newRole = Some []\<rparr>"

text \<open>A transition to another tab, and one within the tab.\<close>

definition toMonarch :: role_update where
  "toMonarch =
     \<lparr>upd_sheetName = MONADIANS, upd_rowNumber = 2, upd_discordId = ''u1'',
      upd_discordUsername = ''ann'', upd_wallet = ''0x1'', upd_newRole = Some ''Monarch''\<rparr>"

definition relabel :: role_update where
  "relabel =
     \<lparr>upd_sheetName = MONADIANS, upd_rowNumber = 2, upd_discordId = ''u1'',
      upd_discordUsername = ''ann'', upd_wallet = ''0x1'', upd_newRole = Some ''MONADIAN''\<rparr>"

text \<open>Both Monadians and Monarch hold a row of user \<open>u1\<close>.\<close>

definition twoTabsRemote :: remote where
  "twoTabsRemote =
     \<lparr>sheets = [MONARCH \<mapsto> [HEADER_ROW, [''alice'', ''u1'', ''0xabc'', ''Monarch'']],
                MONADIANS \<mapsto> [HEADER_ROW, [''bob'', ''u2'', ''0xdef'', ''Monadian''],
                                [''al'', ''u1'', ''0x111'', ''Monadian'']]],
      calls = []\<rparr>"

text \<open>The tab Monadians holds two rows of user \<open>u1\<close>; the other tabs hold none.\<close>

definition dupRemote :: remote where
  "dupRemote =
     \<lparr>sheets = [MONADIANS \<mapsto> [HEADER_ROW, [''al'', ''u1'', ''0x111'', ''Monadian''],
                                [''ali'', ''u1'', ''0x222'', ''Monadian'']]],
      calls = []\<rparr>"

section \<open>Properties of the partition resolver\<close>

lemma toLowerCase_char_cases:
  "toLowerCase_char x = x \<or> (x, toLowerCase_char x) \<in> set (zip ''ABCDEFGHIJKLMNOPQRSTUVWXYZ'' ''abcdefghijklmnopqrstuvwxyz'')"
  unfolding toLowerCase_char_def by simp

lemma toLowerCase_char_zip:
  "(x, y) \<in> set (zip ''ABCDEFGHIJKLMNOPQRSTUVWXYZ'' ''abcdefghijklmnopqrstuvwxyz'') \<Longrightarrow> toLowerCase_char x = y"
  unfolding toLowerCase_char_def
  by (rule arg_cong[where f = "case_option x (\<lambda>d. d)", of _ "Some y", simplified]) (rule map_of_is_SomeI, simp_all)

lemma toLowerCase_char_small_fixed:
  "y \<in> set ''abcdefghijklmnopqrstuvwxyz'' \<Longrightarrow> toLowerCase_char y = y"
  unfolding toLowerCase_char_def
  apply simp
  apply (elim disjE)
  apply simp_all
  done

lemma small_not_capital:
  "y \<in> set ''abcdefghijklmnopqrstuvwxyz'' \<Longrightarrow> y \<notin> set ''ABCDEFGHIJKLMNOPQRSTUVWXYZ''"
  apply simp
  apply (elim disjE)
  apply simp_all
  done

lemma toLowerCase_char_small:
  assumes "y \<in> set ''abcdefghijklmnopqrstuvwxyz''"
  shows "toLowerCase_char x = y \<longleftrightarrow> sameLetter x y"
proof
  assume h: "toLowerCase_char x = y"
  from toLowerCase_char_cases[of x]
  have "y = x \<or> (x, y) \<in> set (zip ''ABCDEFGHIJKLMNOPQRSTUVWXYZ'' ''abcdefghijklmnopqrstuvwxyz'')"
    unfolding h .
  then show "sameLetter x y"
    unfolding sameLetter_def
  proof
    assume "y = x"
    then show "x = y
      \<or> (x, y) \<in> set (zip ''ABCDEFGHIJKLMNOPQRSTUVWXYZ'' ''abcdefghijklmnopqrstuvwxyz'')
      \<or> (y, x) \<in> set (zip ''ABCDEFGHIJKLMNOPQRSTUVWXYZ'' ''abcdefghijklmnopqrstuvwxyz'')"
      by (intro disjI1) (rule sym)
  next
    assume "(x, y) \<in> set (zip ''ABCDEFGHIJKLMNOPQRSTUVWXYZ'' ''abcdefghijklmnopqrstuvwxyz'')"
    then show "x = y
      \<or> (x, y) \<in> set (zip ''ABCDEFGHIJKLMNOPQRSTUVWXYZ'' ''abcdefghijklmnopqrstuvwxyz'')
      \<or> (y, x) \<in> set (zip ''ABCDEFGHIJKLMNOPQRSTUVWXYZ'' ''abcdefghijklmnopqrstuvwxyz'')"
      by (intro disjI2 disjI1)
  qed
next
  assume "sameLetter x y"
  then have "x = y
      \<or> (x, y) \<in> set (zip ''ABCDEFGHIJKLMNOPQRSTUVWXYZ'' ''abcdefghijklmnopqrstuvwxyz'')
      \<or> (y, x) \<in> set (zip ''ABCDEFGHIJKLMNOPQRSTUVWXYZ'' ''abcdefghijklmnopqrstuvwxyz'')"
    unfolding sameLetter_def .
  then show "toLowerCase_char x = y"
  proof (elim disjE)
    assume "x = y"
    with assms show ?thesis by (simp only: toLowerCase_char_small_fixed)
  next
    assume "(x, y) \<in> set (zip ''ABCDEFGHIJKLMNOPQRSTUVWXYZ'' ''abcdefghijklmnopqrstuvwxyz'')"
    then show ?thesis by (rule toLowerCase_char_zip)
  next
    assume "(y, x) \<in> set (zip ''ABCDEFGHIJKLMNOPQRSTUVWXYZ'' ''abcdefghijklmnopqrstuvwxyz'')"
    then have "y \<in> set ''ABCDEFGHIJKLMNOPQRSTUVWXYZ''" by (rule set_zip_leftD)
    from small_not_capital[OF assms] this show ?thesis by (rule notE)
  qed
qed

lemma toLowerCase_small:
  "list_all (\<lambda>y. y \<in> set ''abcdefghijklmnopqrstuvwxyz'') s \<Longrightarrow> toLowerCase r = s \<longleftrightarrow> sameLabel r s"
  unfolding toLowerCase_def sameLabel_def
proof (induction r arbitrary: s)
  case Nil
  then show ?case by auto
next
  case (Cons x xs)
  show ?case
  proof (cases s)
    case Nil
    then show ?thesis by simp
  next
    case (Cons y ys)
    with Cons.prems have y: "y \<in> set ''abcdefghijklmnopqrstuvwxyz''"
      and ys: "list_all (\<lambda>y. y \<in> set ''abcdefghijklmnopqrstuvwxyz'') ys"
      by (simp_all del: set_simps)
    show ?thesis
      unfolding Cons using Cons.IH[OF ys] toLowerCase_char_small[OF y, of x]
      by (simp del: set_simps)
  qed
qed

text \<open>
  Claim C7. The partition resolver is a function of the label alone (every constant of
  this theory is, so two calls on one label agree). It maps the labels that equal
  \<open>monadian\<close>, \<open>monarch\<close> and \<open>monalista\<close> up to the case of their letters to the
  tabs Monadians, Monarch and Monalista, and every other label, the empty string and a
  missing label to \<open>None\<close>.
\<close>

theorem getSheetNameForRole_case_insensitive:
  "getSheetNameForRole (Some r) =
     (if sameLabel r ''monadian'' then Some ''Monadians''
      else if sameLabel r ''monarch'' then Some ''Monarch''
      else if sameLabel r ''monalista'' then Some ''Monalista''
      else None)
   \<and> getSheetNameForRole (Some []) = None
   \<and> getSheetNameForRole None = None"
proof -
  have a: "toLowerCase r = ''monadian'' \<longleftrightarrow> sameLabel r ''monadian''"
    by (rule toLowerCase_small) simp
  have b: "toLowerCase r = ''monarch'' \<longleftrightarrow> sameLabel r ''monarch''"
    by (rule toLowerCase_small) simp
  have c: "toLowerCase r = ''monalista'' \<longleftrightarrow> sameLabel r ''monalista''"
    by (rule toLowerCase_small) simp
  have e: "getSheetNameForRole (Some r) =
     (if toLowerCase r = ''monadian'' then Some ''Monadians''
      else if toLowerCase r = ''monarch'' then Some ''Monarch''
      else if toLowerCase r = ''monalista'' then Some ''Monalista''
      else None)"
    by (simp add: getSheetNameForRole_def MONADIANS_def MONARCH_def MONALISTA_def)
  have f: "getSheetNameForRole (Some []) = None" "getSheetNameForRole None = None"
    by (simp_all add: getSheetNameForRole_def toLowerCase_def)
  show ?thesis
    by (simp only: e a b c f simp_thms)
qed

section \<open>Properties of the retry policy\<close>













section \<open>Properties of the setup\<close>

lemma upt_0_4: "[0..<4] = [0, 1, 2, 3]"
  by (simp add: upt_rec)

lemma short_row_cases:
  assumes "length (fr :: row) \<le> 4"
  obtains "fr = []" | a where "fr = [a]" | a b where "fr = [a, b]"
    | a b c where "fr = [a, b, c]" | a b c d where "fr = [a, b, c, d]"
proof (cases fr)
  case Nil
  then show ?thesis by (rule that(1))
next
  case c1: (Cons a r1)
  show ?thesis
  proof (cases r1)
    case Nil
    with c1 have "fr = [a]" by simp
    then show ?thesis by (rule that(2))
  next
    case c2: (Cons b r2)
    show ?thesis
    proof (cases r2)
      case Nil
      with c1 c2 have "fr = [a, b]" by simp
      then show ?thesis by (rule that(3))
    next
      case c3: (Cons c r3)
      show ?thesis
      proof (cases r3)
        case Nil
        with c1 c2 c3 have "fr = [a, b, c]" by simp
        then show ?thesis by (rule that(4))
      next
        case c4: (Cons d r4)
        with assms c1 c2 c3 have "r4 = []" by simp
        with c1 c2 c3 c4 have "fr = [a, b, c, d]" by simp
        then show ?thesis by (rule that(5))
      qed
    qed
  qed
qed

lemma header_test_generic:
  assumes "length fr \<le> 4"
  shows "(length fr = 0 \<or> list_ex (\<lambda>(h, i). cellAt fr i \<noteq> Some h) (zip [h1, h2, h3, h4] [0, 1, 2, 3]))
     \<longleftrightarrow> fr \<noteq> [h1, h2, h3, h4 :: string]"
  using assms
  by (cases fr rule: short_row_cases) (simp_all add: cellAt_def)

lemma HEADER_ROW_length: "length HEADER_ROW = 4"
  by (simp add: HEADER_ROW_def)

lemma headerNeedsWrite_iff:
  assumes "length fr \<le> 4"
  shows "headerNeedsWrite fr \<longleftrightarrow> fr \<noteq> HEADER_ROW"
  unfolding headerNeedsWrite_def HEADER_ROW_length upt_0_4
  unfolding HEADER_ROW_def
  by (rule header_test_generic[OF assms])


subsection \<open>The requests, one by one\<close>

lemma sheets_logCall [simp]: "sheets (logCall c st) = sheets st"
  by (simp add: logCall_def)

lemma calls_logCall [simp]: "calls (logCall c st) = calls st @ [c]"
  by (simp add: logCall_def)

lemma calls_onSheet [simp]: "calls (onSheet n f st) = calls st"
  by (simp add: onSheet_def split: option.split)

lemma sheets_onSheet:
  "sheets (onSheet n f st) m = (if m = n then map_option f (sheets st n) else sheets st m)"
  by (simp add: onSheet_def split: option.split)

lemma gridOf_logCall [simp]: "gridOf (logCall c st) = gridOf st"
  by (rule ext) (simp add: gridOf_def)

lemma gridOf_onSheet:
  "gridOf (onSheet n f st) m = (if m = n \<and> sheets st n \<noteq> None then f (gridOf st n) else gridOf st m)"
  by (auto simp: gridOf_def sheets_onSheet split: option.split)

lemma writeRowAt_header:
  "writeRowAt g (Suc 0) 0 vs = (case g of [] \<Rightarrow> [vs] | h # t \<Rightarrow> (vs @ drop (length vs) h) # t)"
  by (cases g) (simp_all add: writeRowAt_def writeCells_def)

lemma writeHeader:
  "rangeWrite g A1_D1 vs = (case g of [] \<Rightarrow> [vs] | h # t \<Rightarrow> (vs @ drop (length vs) h) # t)"
  by (simp add: rangeWrite_def writeRowAt_header)

lemma HEADER_ROW_not_Nil: "HEADER_ROW \<noteq> []"
  by (simp add: HEADER_ROW_def)

lemma headerOf_fixHeader [simp]: "headerOf (fixHeader g) = HEADER_ROW"
  by (cases g)
     (simp_all add: fixHeader_def writeHeader headerOf_def HEADER_ROW_length)

lemma dataRowsOf_fixHeader [simp]: "dataRowsOf (fixHeader g) = dataRowsOf g"
  by (cases g) (simp_all add: fixHeader_def writeHeader dataRowsOf_def)

lemma fixHeader_not_Nil [simp]: "fixHeader g \<noteq> []"
  by (cases g)
     (simp_all add: fixHeader_def writeHeader headerOf_def HEADER_ROW_not_Nil[symmetric])

lemma fixHeader_idem [simp]: "fixHeader (fixHeader g) = fixHeader g"
  by (simp add: fixHeader_def[of "fixHeader g"])

lemma firstRow_read:
  "(case rangeValues g A1_D1 of [] \<Rightarrow> [] | r # _ \<Rightarrow> r) = headerOf g"
  by (cases g) (simp_all add: rangeValues_def headerOf_def)

lemma headerNeedsWrite_headerOf: "headerNeedsWrite (headerOf g) \<longleftrightarrow> headerOf g \<noteq> HEADER_ROW"
  by (rule headerNeedsWrite_iff) (simp add: headerOf_def)

lemma headerNeedsWrite_HEADER_ROW: "\<not> headerNeedsWrite HEADER_ROW"
  by (simp add: headerNeedsWrite_iff HEADER_ROW_length)

lemma headerNeedsWrite_Nil: "headerNeedsWrite []"
  by (simp add: headerNeedsWrite_def)

lemma ensureHeader_Some:
  assumes "sheets st n = Some g"
  shows "ensureHeader n st =
    st\<lparr>sheets := (sheets st)(n \<mapsto> fixHeader g),
       calls := calls st @ headerCalls st n\<rparr>"
proof (cases "headerOf g = HEADER_ROW")
  case True
  then have "fixHeader g = g" by (simp add: fixHeader_def)
  moreover have "(sheets st)(n \<mapsto> g) = sheets st" using assms by (rule map_upd_triv)
  ultimately show ?thesis
    using assms True
    by (simp add: ensureHeader_def values_get_def firstRow_read headerNeedsWrite_HEADER_ROW
        headerCalls_def headerCells_def gridOf_def logCall_def)
next
  case False
  then have "fixHeader g = rangeWrite g A1_D1 HEADER_ROW" by (simp add: fixHeader_def)
  then show ?thesis
    using assms False
    by (simp add: ensureHeader_def values_get_def firstRow_read headerNeedsWrite_headerOf
        headerCalls_def headerCells_def gridOf_def logCall_def values_update_def onSheet_def)
qed

lemma ensureHeader_None:
  assumes "sheets st n = None"
  shows "ensureHeader n st = st\<lparr>calls := calls st @ headerCalls st n\<rparr>"
  using assms HEADER_ROW_not_Nil[symmetric]
  by (simp add: ensureHeader_def values_get_def headerNeedsWrite_Nil
      headerCalls_def headerCells_def gridOf_def headerOf_def logCall_def values_update_def onSheet_def)

lemma sheets_ensureHeader:
  "sheets (ensureHeader n st) m = (if m = n then map_option fixHeader (sheets st n) else sheets st m)"
  by (cases "sheets st n") (simp_all add: ensureHeader_None ensureHeader_Some)

lemma calls_ensureHeader: "calls (ensureHeader n st) = calls st @ headerCalls st n"
  by (cases "sheets st n") (simp_all add: ensureHeader_None ensureHeader_Some)

lemma headerCalls_ensureHeader:
  "m \<noteq> n \<Longrightarrow> headerCalls (ensureHeader n st) m = headerCalls st m"
  by (simp add: headerCalls_def headerCells_def gridOf_def sheets_ensureHeader)

lemma sheets_fold_ensureHeader:
  "sheets (fold ensureHeader ns st) m =
     (if m \<in> set ns then map_option fixHeader (sheets st m) else sheets st m)"
proof (induction ns arbitrary: st)
  case Nil
  then show ?case by simp
next
  case (Cons n ns)
  show ?case
  proof (cases "n = m")
    case True
    then show ?thesis
      by (cases "sheets st m") (simp_all add: Cons.IH sheets_ensureHeader)
  next
    case False
    then show ?thesis by (simp add: Cons.IH sheets_ensureHeader)
  qed
qed

lemma headerCalls_cong:
  "sheets st n = sheets st' n \<Longrightarrow> headerCalls st n = headerCalls st' n"
  by (simp add: headerCalls_def headerCells_def gridOf_def)

lemma calls_fold_ensureHeader:
  "distinct ns \<Longrightarrow>
   calls (fold ensureHeader ns st) = calls st @ concat (map (headerCalls st) ns)"
proof (induction ns arbitrary: st)
  case Nil
  then show ?case by simp
next
  case (Cons n ns)
  have "map (headerCalls (ensureHeader n st)) ns = map (headerCalls st) ns"
  proof (rule map_cong[OF refl])
    fix m assume "m \<in> set ns"
    with Cons.prems have "m \<noteq> n" by auto
    then show "headerCalls (ensureHeader n st) m = headerCalls st m"
      by (rule headerCalls_ensureHeader)
  qed
  then have "concat (map (headerCalls (ensureHeader n st)) ns) = concat (map (headerCalls st) ns)"
    by (rule arg_cong)
  moreover have "distinct ns" using Cons.prems by simp
  ultimately show ?case by (simp add: Cons.IH calls_ensureHeader)
qed

lemma fold_addSheet:
  "fold (\<lambda>t m. m(t \<mapsto> [])) ts m n = (if n \<in> set ts then Some [] else m n)"
  by (induction ts arbitrary: m) auto

lemma SHEET_NAMES_distinct: "distinct SHEET_NAMES"
  by (simp add: SHEET_NAMES_def MONADIANS_def MONARCH_def MONALISTA_def)

lemma sheets_ensureSheetSetup:
  "sheets (ensureSheetSetup st) n =
     (if n \<in> set SHEET_NAMES then Some (fixHeader (gridOf st n)) else sheets st n)"
proof (cases "missingSheets st = []")
  case True
  then have all: "\<And>m. m \<in> set SHEET_NAMES \<Longrightarrow> sheets st m \<noteq> None"
    unfolding missingSheets_def by (simp add: filter_empty_conv)
  have "ensureSheetSetup st = fold ensureHeader SHEET_NAMES (logCall Spreadsheets_get st)"
    using True by (simp add: ensureSheetSetup_def spreadsheets_get_def missingSheets_def)
  then show ?thesis using all[of n]
    by (auto simp: sheets_fold_ensureHeader gridOf_def)
next
  case False
  have "ensureSheetSetup st =
      fold ensureHeader SHEET_NAMES (batchUpdate_addSheet (missingSheets st) (logCall Spreadsheets_get st))"
    using False by (simp add: ensureSheetSetup_def spreadsheets_get_def missingSheets_def)
  then show ?thesis
    by (cases "sheets st n")
       (auto simp: sheets_fold_ensureHeader gridOf_def batchUpdate_addSheet_def fold_addSheet
          missingSheets_def fixHeader_def[of "[]"])
qed


lemma ensureSheetSetup_unfold:
  "ensureSheetSetup st =
     fold ensureHeader SHEET_NAMES
       (if missingSheets st = [] then logCall Spreadsheets_get st
        else batchUpdate_addSheet (missingSheets st) (logCall Spreadsheets_get st))"
  by (simp add: ensureSheetSetup_def spreadsheets_get_def missingSheets_def)

lemma headerCalls_addSheet:
  "headerCalls (batchUpdate_addSheet (missingSheets st) (logCall c st)) = headerCalls st"
proof (rule ext)
  fix n
  show "headerCalls (batchUpdate_addSheet (missingSheets st) (logCall c st)) n = headerCalls st n"
    by (cases "sheets st n")
       (simp_all add: headerCalls_def headerCells_def gridOf_def batchUpdate_addSheet_def
          fold_addSheet missingSheets_def)
qed

lemma calls_addSheet: "calls (batchUpdate_addSheet ts st) = calls st @ [BatchUpdate_addSheet ts]"
  by (simp add: batchUpdate_addSheet_def)

lemma headerCalls_logCall [simp]: "headerCalls (logCall c st) = headerCalls st"
  by (rule ext) (simp add: headerCalls_def headerCells_def)

lemma calls_ensureSheetSetup: "calls (ensureSheetSetup st) = calls st @ setupCalls st"
proof (cases "missingSheets st = []")
  case True
  then show ?thesis
    by (simp add: ensureSheetSetup_unfold calls_fold_ensureHeader[OF SHEET_NAMES_distinct]
        setupCalls_def)
next
  case False
  then show ?thesis
    by (simp add: ensureSheetSetup_unfold calls_fold_ensureHeader[OF SHEET_NAMES_distinct]
        setupCalls_def headerCalls_addSheet calls_addSheet)
qed

lemma newCalls_ensureSheetSetup: "newCalls st (ensureSheetSetup st) = setupCalls st"
  by (simp add: newCalls_def calls_ensureSheetSetup)

lemma gridOf_ensureSheetSetup:
  "gridOf (ensureSheetSetup st) n =
     (if n \<in> set SHEET_NAMES then fixHeader (gridOf st n) else gridOf st n)"
  by (simp add: gridOf_def[of "ensureSheetSetup st"] sheets_ensureSheetSetup)
     (simp add: gridOf_def)

lemma dataRows_ensureSheetSetup [simp]: "dataRows (ensureSheetSetup st) = dataRows st"
  by (rule ext) (simp add: dataRows_def gridOf_ensureSheetSetup)

lemma rowsBearing_ensureSheetSetup [simp]:
  "rowsBearing did (ensureSheetSetup st) = rowsBearing did st"
  by (rule ext) (simp add: rowsBearing_def)

lemma headerCells_ensureSheetSetup:
  "n \<in> set SHEET_NAMES \<Longrightarrow> headerCells (ensureSheetSetup st) n = HEADER_ROW"
  by (simp add: headerCells_def gridOf_ensureSheetSetup)

lemma header_update_in_headerCalls:
  "Values_update n A1_D1 HEADER_ROW \<in> set (headerCalls st m) \<longleftrightarrow> m = n \<and> headerCells st n \<noteq> HEADER_ROW"
  by (auto simp: headerCalls_def)

lemma header_update_in_setupCalls:
  "Values_update n A1_D1 HEADER_ROW \<in> set (setupCalls st) \<longleftrightarrow>
     n \<in> set SHEET_NAMES \<and> headerCells st n \<noteq> HEADER_ROW"
  by (auto simp: setupCalls_def header_update_in_headerCalls)

lemma setupCalls_no_data: "list_all (\<lambda>c. \<not> touchesData c) (setupCalls st)"
  by (auto simp: setupCalls_def headerCalls_def list_all_iff)

section \<open>Properties of the reads and writes\<close>

subsection \<open>Reads and the locator\<close>

lemma dataRows_logCall [simp]: "dataRows (logCall c st) = dataRows st"
  by (rule ext) (simp add: dataRows_def)

lemma rowsBearing_logCall [simp]: "rowsBearing did (logCall c st) = rowsBearing did st"
  by (rule ext) (simp add: rowsBearing_def)

lemma values_get_data:
  "values_get n A2_D st = (dataRows st n, logCall (Values_get n A2_D) st)"
  by (cases "sheets st n")
     (simp_all add: values_get_def dataRows_def dataRowsOf_def gridOf_def rangeValues_def)

lemma findRowIndex_None:
  "findRowIndex did rows i = None \<longleftrightarrow> filter (bears did) rows = []"
  by (induction rows arbitrary: i) (simp_all add: bears_def)

lemma findRowIndex_Some:
  "filter (bears did) rows \<noteq> [] \<Longrightarrow> findRowIndex did rows i = Some (i + firstRowIndex did rows)"
proof (induction rows arbitrary: i)
  case Nil
  then show ?case by simp
next
  case (Cons r rows)
  show ?case
  proof (cases "bears did r")
    case True
    then show ?thesis by (simp add: bears_def firstRowIndex_def)
  next
    case False
    with Cons.prems have "filter (bears did) rows \<noteq> []" by simp
    from Cons.IH[OF this, of "Suc i"] False show ?thesis
      by (simp add: bears_def firstRowIndex_def)
  qed
qed

lemma find_append:
  "find P (xs @ ys) = (case find P xs of None \<Rightarrow> find P ys | Some x \<Rightarrow> Some x)"
  by (induction xs) simp_all

lemma findExisting_fst:
  "fst (findExisting did ns st) =
     (case filter (\<lambda>n. rowsBearing did st n \<noteq> []) ns of
        [] \<Rightarrow> None
      | n # _ \<Rightarrow> Some (n, firstRowIndex did (dataRows st n) + 2))"
proof (induction ns arbitrary: st)
  case Nil
  then show ?case by simp
next
  case (Cons n ns)
  show ?case
  proof (cases "rowsBearing did st n = []")
    case True
    then have "findRowIndex did (dataRows st n) 0 = None"
      by (simp add: findRowIndex_None rowsBearing_def)
    with True show ?thesis by (simp add: values_get_data Cons.IH cong: list.case_cong)
  next
    case False
    then have "findRowIndex did (dataRows st n) 0 = Some (0 + firstRowIndex did (dataRows st n))"
      unfolding rowsBearing_def by (rule findRowIndex_Some)
    with False show ?thesis by (simp add: values_get_data)
  qed
qed

lemma findExisting_located:
  "fst (findExisting did SHEET_NAMES st) = located did st"
  by (simp add: findExisting_fst located_def firstSheetWith_def split: list.split)

lemma sheets_findExisting [simp]: "sheets (snd (findExisting did ns st)) = sheets st"
  by (induction ns arbitrary: st) (simp_all add: values_get_data split: option.split)

lemma prefix_findExisting: "prefix (calls st) (calls (snd (findExisting did ns st)))"
proof (induction ns arbitrary: st)
  case Nil
  then show ?case by simp
next
  case (Cons n ns)
  have "prefix (calls st) (calls (logCall (Values_get n A2_D) st))" by simp
  moreover note Cons.IH[of "logCall (Values_get n A2_D) st"]
  ultimately have "prefix (calls st) (calls (snd (findExisting did ns (logCall (Values_get n A2_D) st))))"
    by (rule prefix_order.trans)
  then show ?case
    by (simp add: values_get_data split: option.split)
qed

lemma getWallet_rows_find:
  "getWallet_rows did rows = map_option (foundRecord did) (find (bears did) rows)"
  by (induction rows) (simp_all add: bears_def foundRecord_def)

lemma find_None_filter: "find P xs = None \<longleftrightarrow> filter P xs = []"
  by (induction xs) simp_all

lemma getWallet_sheets_fst:
  "fst (getWallet_sheets did ns st) =
     map_option (foundRecord did) (find (bears did) (concat (map (dataRows st) ns)))"
proof (induction ns arbitrary: st)
  case Nil
  then show ?case by simp
next
  case (Cons n ns)
  show ?case
  proof (cases "find (bears did) (dataRows st n)")
    case None
    then show ?thesis
      by (simp add: values_get_data getWallet_rows_find Cons.IH find_append)
  next
    case (Some r)
    then show ?thesis
      by (simp add: values_get_data getWallet_rows_find find_append)
  qed
qed

lemma sheets_getWallet_sheets [simp]: "sheets (snd (getWallet_sheets did ns st)) = sheets st"
  by (induction ns arbitrary: st) (simp_all add: values_get_data split: option.split)

lemma prefix_getWallet_sheets: "prefix (calls st) (calls (snd (getWallet_sheets did ns st)))"
proof (induction ns arbitrary: st)
  case Nil
  then show ?case by simp
next
  case (Cons n ns)
  have "prefix (calls st) (calls (logCall (Values_get n A2_D) st))" by simp
  moreover note Cons.IH[of "logCall (Values_get n A2_D) st"]
  ultimately have "prefix (calls st) (calls (snd (getWallet_sheets did ns (logCall (Values_get n A2_D) st))))"
    by (rule prefix_order.trans)
  then show ?case
    by (simp add: values_get_data split: option.split)
qed

lemma dataRows_cong: "sheets st' = sheets st \<Longrightarrow> dataRows st' = dataRows st"
  by (rule ext) (simp add: dataRows_def gridOf_def)

lemma getWallet_fst:
  "fst (getWallet did st) =
     map_option (foundRecord did) (find (bears did) (concat (map (dataRows st) SHEET_NAMES)))"
  by (simp add: getWallet_def getWallet_sheets_fst)

lemma firstSheetWith_None:
  "firstSheetWith did st = None \<longleftrightarrow> list_all (\<lambda>n. rowsBearing did st n = []) SHEET_NAMES"
proof (cases "filter (\<lambda>n. rowsBearing did st n \<noteq> []) SHEET_NAMES")
  case Nil
  then show ?thesis
    by (simp add: firstSheetWith_def) (simp add: filter_empty_conv list_all_iff)
next
  case (Cons n ns)
  then have "filter (\<lambda>n. rowsBearing did st n \<noteq> []) SHEET_NAMES \<noteq> []" by simp
  then have "\<not> list_all (\<lambda>n. rowsBearing did st n = []) SHEET_NAMES"
    by (simp add: filter_empty_conv list_all_iff)
  with Cons show ?thesis by (simp add: firstSheetWith_def)
qed

lemma find_concat_None:
  "find P (concat xss) = None \<longleftrightarrow> list_all (\<lambda>xs. filter P xs = []) xss"
  unfolding find_None_filter by (induction xss) simp_all

subsection \<open>Writes, appends and deletions\<close>

lemma gridOf_cong: "sheets st' = sheets st \<Longrightarrow> gridOf st' = gridOf st"
  by (rule ext) (simp add: gridOf_def)

lemma dataRowsOf_deleteRows:
  "dataRowsOf (deleteRows g (Suc k) (Suc (Suc k))) = take k (dataRowsOf g) @ drop (Suc k) (dataRowsOf g)"
  by (cases g) (simp_all add: dataRowsOf_def deleteRows_def take_map drop_map)

lemma dataRowsOf_appendRow: "dataRowsOf (appendRow g v) = dataRowsOf g @ [take 4 v]"
  by (cases g) (simp_all add: dataRowsOf_def appendRow_def)

lemma writeRowAt_inside:
  "0 < n \<Longrightarrow> n \<le> length g \<Longrightarrow> writeRowAt g n col vs = g[n - 1 := writeCells (g ! (n - 1)) col vs]"
  by (simp add: writeRowAt_def)

lemma dataRowsOf_update:
  "k < length (dataRowsOf g) \<Longrightarrow>
   dataRowsOf (g[Suc k := r]) = (dataRowsOf g)[k := take 4 r]"
  by (simp add: dataRowsOf_def drop_update_swap map_update)

lemma dataRowsOf_writeRow:
  assumes "k < length (dataRowsOf g)" "length v = 4"
  shows "dataRowsOf (rangeWrite g (An_Dn (Suc (Suc k))) v) = (dataRowsOf g)[k := v]"
proof -
  from assms(1) have "Suc (Suc k) \<le> length g" by (simp add: dataRowsOf_def)
  then have "rangeWrite g (An_Dn (Suc (Suc k))) v = g[Suc k := writeCells (g ! Suc k) 0 v]"
    by (simp add: rangeWrite_def writeRowAt_inside)
  moreover have "take 4 (writeCells (g ! Suc k) 0 v) = v"
    using assms(2) by (simp add: writeCells_def)
  ultimately show ?thesis using assms(1) by (simp add: dataRowsOf_update)
qed

lemma gridOf_deleteRowFromSheet:
  "gridOf (deleteRowFromSheet s k st) n =
     (if n = s then deleteRows (gridOf st s) (k - 1) k else gridOf st n)"
  by (cases "sheets st s")
     (simp_all add: deleteRowFromSheet_def spreadsheets_get_def batchUpdate_deleteDimension_def
        gridOf_onSheet, simp_all add: gridOf_def deleteRows_def)

lemma exists_deleteRowFromSheet [simp]:
  "sheets (deleteRowFromSheet s k st) n = None \<longleftrightarrow> sheets st n = None"
  by (cases "sheets st s")
     (simp_all add: deleteRowFromSheet_def spreadsheets_get_def batchUpdate_deleteDimension_def
        sheets_onSheet)

lemma calls_deleteRowFromSheet:
  "calls (deleteRowFromSheet s k st) =
     calls st @ Spreadsheets_get
       # (if sheets st s = None then [] else [BatchUpdate_deleteDimension s (k - 1) k])"
  by (cases "sheets st s")
     (simp_all add: deleteRowFromSheet_def spreadsheets_get_def batchUpdate_deleteDimension_def)

lemma dataRows_deleteRowFromSheet:
  "dataRows (deleteRowFromSheet s (Suc (Suc k)) st) =
     (dataRows st)(s := take k (dataRows st s) @ drop (Suc k) (dataRows st s))"
  by (rule ext) (simp add: dataRows_def gridOf_deleteRowFromSheet dataRowsOf_deleteRows)

lemma gridOf_values_append:
  "gridOf (values_append s r v st) n =
     (if n = s \<and> sheets st s \<noteq> None then appendRow (gridOf st s) v else gridOf st n)"
  by (simp add: values_append_def gridOf_onSheet)

lemma exists_values_append [simp]:
  "sheets (values_append s r v st) n = None \<longleftrightarrow> sheets st n = None"
  by (simp add: values_append_def sheets_onSheet)

lemma calls_values_append:
  "calls (values_append s r v st) = calls st @ [Values_append s r v]"
  by (simp add: values_append_def)

lemma dataRows_values_append:
  "sheets st s \<noteq> None \<Longrightarrow>
   dataRows (values_append s r v st) = (dataRows st)(s := dataRows st s @ [take 4 v])"
  by (rule ext) (simp add: dataRows_def gridOf_values_append dataRowsOf_appendRow)

lemma gridOf_values_update:
  "gridOf (values_update s r v st) n =
     (if n = s \<and> sheets st s \<noteq> None then rangeWrite (gridOf st s) r v else gridOf st n)"
  by (simp add: values_update_def gridOf_onSheet)

lemma exists_values_update [simp]:
  "sheets (values_update s r v st) n = None \<longleftrightarrow> sheets st n = None"
  by (simp add: values_update_def sheets_onSheet)

lemma calls_values_update:
  "calls (values_update s r v st) = calls st @ [Values_update s r v]"
  by (simp add: values_update_def)

lemma dataRows_values_update_row:
  "sheets st s \<noteq> None \<Longrightarrow> k < length (dataRows st s) \<Longrightarrow> length v = 4 \<Longrightarrow>
   dataRows (values_update s (An_Dn (Suc (Suc k))) v st) = (dataRows st)(s := (dataRows st s)[k := v])"
  by (rule ext) (simp add: dataRows_def gridOf_values_update dataRowsOf_writeRow)

lemma exists_ensureSheetSetup [simp]:
  "n \<in> set SHEET_NAMES \<Longrightarrow> sheets (ensureSheetSetup st) n \<noteq> None"
  by (simp add: sheets_ensureSheetSetup)

subsection \<open>The first row bearing an identifier\<close>

lemma firstRowIndex_less:
  "filter (bears did) rows \<noteq> [] \<Longrightarrow> firstRowIndex did rows < length rows"
  unfolding firstRowIndex_def
  by (induction rows) (simp_all split: if_splits)

lemma filter_update_first:
  "filter (bears did) rows \<noteq> [] \<Longrightarrow> bears did v \<Longrightarrow>
   filter (bears did) (rows[firstRowIndex did rows := v]) = v # tl (filter (bears did) rows)"
  unfolding firstRowIndex_def
  by (induction rows) (simp_all split: if_splits)

lemma filter_delete_first:
  "filter (bears did) (take (firstRowIndex did rows) rows @ drop (Suc (firstRowIndex did rows)) rows)
     = tl (filter (bears did) rows)"
  unfolding firstRowIndex_def
  by (induction rows) simp_all

lemma first_row_unchanged:
  "filter (bears did) rows = [v] \<Longrightarrow> rows[firstRowIndex did rows := v] = rows"
  unfolding firstRowIndex_def
  by (induction rows) (simp_all split: if_splits)

lemma bears_rowOf [simp]: "bears (discordId args) (rowOf args)"
  by (simp add: bears_def rowOf_def cellAt_def)

lemma length_rowOf [simp]: "length (rowOf args) = 4"
  by (simp add: rowOf_def)

lemma getSheetNameForRole_in_SHEET_NAMES:
  "getSheetNameForRole r = Some P \<Longrightarrow> P \<in> set SHEET_NAMES"
  by (auto simp: getSheetNameForRole_def SHEET_NAMES_def Let_def split: if_splits)

lemma firstSheetWith_Some:
  "firstSheetWith did st = Some A \<Longrightarrow> A \<in> set SHEET_NAMES \<and> rowsBearing did st A \<noteq> []"
proof -
  assume a: "firstSheetWith did st = Some A"
  then obtain ns where "filter (\<lambda>n. rowsBearing did st n \<noteq> []) SHEET_NAMES = A # ns"
    by (auto simp: firstSheetWith_def split: list.splits)
  then have "A \<in> set (filter (\<lambda>n. rowsBearing did st n \<noteq> []) SHEET_NAMES)" by simp
  then show ?thesis by simp
qed

section \<open>Properties of the upsert\<close>

subsection \<open>The effect of an upsert\<close>

lemma located_ensureSheetSetup [simp]: "located did (ensureSheetSetup st) = located did st"
  by (simp add: located_def firstSheetWith_def)

lemma upsertWallet_skip:
  "getSheetNameForRole (role args) = None \<Longrightarrow> upsertWallet args st = (Skipped, ensureSheetSetup st)"
  by (simp add: upsertWallet_def)

lemma upsertWallet_unfold:
  fixes args st
  defines "st2 \<equiv> snd (findExisting (discordId args) SHEET_NAMES (ensureSheetSetup st))"
  assumes P: "getSheetNameForRole (role args) = Some P"
  shows "upsertWallet args st =
    (case located (discordId args) st of
       None \<Rightarrow> (Inserted, values_append P A2_D (rowOf args) st2)
     | Some (s, k) \<Rightarrow>
         if s \<noteq> P then (Inserted, values_append P A2_D (rowOf args) (deleteRowFromSheet s k st2))
         else (Updated, values_update P (An_Dn k) (rowOf args) st2))"
proof -
  have "findExisting (discordId args) SHEET_NAMES (ensureSheetSetup st) = (located (discordId args) st, st2)"
    unfolding st2_def
    by (simp add: prod_eq_iff findExisting_located)
  then show ?thesis
    using P
    by (simp add: upsertWallet_def rowOf_def split: option.split prod.split)
qed

lemma dataRows_after_scan [simp]:
  "dataRows (snd (findExisting did ns (ensureSheetSetup st))) = dataRows st"
proof -
  have "dataRows (snd (findExisting did ns (ensureSheetSetup st))) = dataRows (ensureSheetSetup st)"
    by (rule dataRows_cong) simp
  then show ?thesis by simp
qed

lemma located_None: "located did st = None \<longleftrightarrow> firstSheetWith did st = None"
  by (simp add: located_def)

lemma located_Some:
  "firstSheetWith did st = Some A \<Longrightarrow> located did st = Some (A, firstRowIndex did (dataRows st A) + 2)"
  by (simp add: located_def)

lemma upsertWallet_insert:
  assumes P: "getSheetNameForRole (role args) = Some P"
    and absent: "firstSheetWith (discordId args) st = None"
  shows "fst (upsertWallet args st) = Inserted"
    and "dataRows (snd (upsertWallet args st)) = (dataRows st)(P := dataRows st P @ [rowOf args])"
proof -
  from absent have l: "located (discordId args) st = None" by (simp add: located_None)
  have Pin: "P \<in> set SHEET_NAMES" using P by (rule getSheetNameForRole_in_SHEET_NAMES)
  show "fst (upsertWallet args st) = Inserted"
    by (simp add: upsertWallet_unfold[OF P] l)
  show "dataRows (snd (upsertWallet args st)) = (dataRows st)(P := dataRows st P @ [rowOf args])"
    using Pin by (simp add: upsertWallet_unfold[OF P] l dataRows_values_append)
qed

lemma upsertWallet_update:
  assumes P: "getSheetNameForRole (role args) = Some P"
    and here: "firstSheetWith (discordId args) st = Some P"
  shows "fst (upsertWallet args st) = Updated"
    and "dataRows (snd (upsertWallet args st)) =
      (dataRows st)(P := (dataRows st P)[firstRowIndex (discordId args) (dataRows st P) := rowOf args])"
proof -
  note l = located_Some[OF here]
  have Pin: "P \<in> set SHEET_NAMES" using P by (rule getSheetNameForRole_in_SHEET_NAMES)
  from firstSheetWith_Some[OF here]
  have "filter (bears (discordId args)) (dataRows st P) \<noteq> []" by (simp add: rowsBearing_def)
  then have k: "firstRowIndex (discordId args) (dataRows st P) < length (dataRows st P)"
    by (rule firstRowIndex_less)
  show "fst (upsertWallet args st) = Updated"
    by (simp add: upsertWallet_unfold[OF P] l)
  show "dataRows (snd (upsertWallet args st)) =
      (dataRows st)(P := (dataRows st P)[firstRowIndex (discordId args) (dataRows st P) := rowOf args])"
    using Pin k by (simp add: upsertWallet_unfold[OF P] l dataRows_values_update_row)
qed

lemma upsertWallet_move:
  assumes P: "getSheetNameForRole (role args) = Some P"
    and there: "firstSheetWith (discordId args) st = Some A" and ne: "A \<noteq> P"
  shows "fst (upsertWallet args st) = Inserted"
    and "dataRows (snd (upsertWallet args st)) =
      (dataRows st)
        (A := take (firstRowIndex (discordId args) (dataRows st A)) (dataRows st A)
              @ drop (Suc (firstRowIndex (discordId args) (dataRows st A))) (dataRows st A),
         P := dataRows st P @ [rowOf args])"
proof -
  note l = located_Some[OF there]
  have Pin: "P \<in> set SHEET_NAMES" using P by (rule getSheetNameForRole_in_SHEET_NAMES)
  show "fst (upsertWallet args st) = Inserted"
    using ne by (simp add: upsertWallet_unfold[OF P] l)
  show "dataRows (snd (upsertWallet args st)) =
      (dataRows st)
        (A := take (firstRowIndex (discordId args) (dataRows st A)) (dataRows st A)
              @ drop (Suc (firstRowIndex (discordId args) (dataRows st A))) (dataRows st A),
         P := dataRows st P @ [rowOf args])"
    using Pin ne
    by (simp add: upsertWallet_unfold[OF P] l dataRows_values_append dataRows_deleteRowFromSheet)
qed

subsection \<open>One row per identifier\<close>

lemma concat_at_most_one:
  "length (concat (map f ns)) \<le> 1 \<Longrightarrow> distinct ns \<Longrightarrow> A \<in> set ns \<Longrightarrow> f A \<noteq> [] \<Longrightarrow>
   length (f A) = 1 \<and> (\<forall>n\<in>set ns. n \<noteq> A \<longrightarrow> f n = [])"
proof (induction ns)
  case Nil
  then show ?case by simp
next
  case (Cons m ns)
  show ?case
  proof (cases "m = A")
    case True
    with Cons.prems have "length (f A) + length (concat (map f ns)) \<le> 1" by simp
    moreover have "0 < length (f A)" using Cons.prems(4) by simp
    ultimately have "length (f A) = 1" and z: "length (concat (map f ns)) = 0" by linarith+
    moreover from z have "concat (map f ns) = []" by (simp only: length_0_conv)
    ultimately show ?thesis using True by auto
  next
    case False
    with Cons.prems have A: "A \<in> set ns" and d: "distinct ns"
      and l: "length (f m) + length (concat (map f ns)) \<le> 1" by simp_all
    from l have l': "length (concat (map f ns)) \<le> 1" by simp
    from Cons.IH[OF l' d A Cons.prems(4)]
    have one: "length (f A) = 1" and rest: "\<forall>n\<in>set ns. n \<noteq> A \<longrightarrow> f n = []" by simp_all
    have "length (f A) \<le> length (concat (map f ns))"
      using A by (induction ns) auto
    with one l have "length (f m) = 0" by linarith
    then have "f m = []" by (simp only: length_0_conv)
    with one rest show ?thesis by simp
  qed
qed

lemma filter_single:
  "distinct ns \<Longrightarrow> P \<in> set ns \<Longrightarrow> Q P \<Longrightarrow> (\<forall>n\<in>set ns. n \<noteq> P \<longrightarrow> \<not> Q n) \<Longrightarrow> filter Q ns = [P]"
  by (induction ns) (auto simp: filter_empty_conv)

lemma concat_single:
  "distinct ns \<Longrightarrow> P \<in> set ns \<Longrightarrow> f P = [v] \<Longrightarrow> (\<forall>n\<in>set ns. n \<noteq> P \<longrightarrow> f n = []) \<Longrightarrow>
   concat (map f ns) = [v]"
  by (induction ns) auto

lemma rowsBearing_upd:
  "dataRows st' = (dataRows st)(s := rows) \<Longrightarrow>
   rowsBearing did st' n = (if n = s then filter (bears did) rows else rowsBearing did st n)"
  by (simp add: rowsBearing_def)

lemma upsertWallet_rows:
  assumes P: "getSheetNameForRole (role args) = Some P"
    and one: "length (allRowsBearing (discordId args) st) \<le> 1"
  shows "rowsBearing (discordId args) (snd (upsertWallet args st)) P = [rowOf args]"
    and "\<forall>n\<in>set SHEET_NAMES. n \<noteq> P \<longrightarrow> rowsBearing (discordId args) (snd (upsertWallet args st)) n = []"
    and "fst (upsertWallet args st) =
           (if rowsBearing (discordId args) st P = [] then Inserted else Updated)"
proof -
  let ?did = "discordId args"
  let ?st' = "snd (upsertWallet args st)"
  have Pin: "P \<in> set SHEET_NAMES" using P by (rule getSheetNameForRole_in_SHEET_NAMES)
  have "rowsBearing ?did ?st' P = [rowOf args]
      \<and> (\<forall>n\<in>set SHEET_NAMES. n \<noteq> P \<longrightarrow> rowsBearing ?did ?st' n = [])
      \<and> fst (upsertWallet args st) = (if rowsBearing ?did st P = [] then Inserted else Updated)"
  proof (cases "firstSheetWith ?did st")
    case None
    then have none: "\<forall>n\<in>set SHEET_NAMES. rowsBearing ?did st n = []"
      by (simp add: firstSheetWith_None list_all_iff)
    note eff = upsertWallet_insert[OF P None]
    show ?thesis
      using none Pin
      by (simp add: rowsBearing_upd[OF eff(2)] eff(1)) (simp add: rowsBearing_def)
  next
    case (Some A)
    from firstSheetWith_Some[OF Some]
    have Ain: "A \<in> set SHEET_NAMES" and ne: "rowsBearing ?did st A \<noteq> []" by simp_all
    from concat_at_most_one[OF one[unfolded allRowsBearing_def] SHEET_NAMES_distinct Ain ne]
    have lenA: "length (rowsBearing ?did st A) = 1"
      and others: "\<forall>n\<in>set SHEET_NAMES. n \<noteq> A \<longrightarrow> rowsBearing ?did st n = []" by simp_all
    from lenA have tlA: "tl (rowsBearing ?did st A) = []"
      by (cases "rowsBearing ?did st A") simp_all
    show ?thesis
    proof (cases "A = P")
      case True
      note eff = upsertWallet_update[OF P Some[unfolded True]]
      have "filter (bears ?did) ((dataRows st P)[firstRowIndex ?did (dataRows st P) := rowOf args])
          = [rowOf args]"
        using ne tlA unfolding True rowsBearing_def
        by (simp add: filter_update_first)
      then show ?thesis
        using others ne unfolding True
        by (simp add: rowsBearing_upd[OF eff(2)] eff(1))
    next
      case False
      note eff = upsertWallet_move[OF P Some False]
      have PA: "rowsBearing ?did st P = []" using others Pin False by auto
      have del: "filter (bears ?did)
           (take (firstRowIndex ?did (dataRows st A)) (dataRows st A)
            @ drop (Suc (firstRowIndex ?did (dataRows st A))) (dataRows st A)) = []"
        using tlA by (simp only: filter_delete_first rowsBearing_def)
      have app: "filter (bears ?did) (dataRows st P @ [rowOf args]) = [rowOf args]"
        using PA by (simp add: rowsBearing_def)
      have upd: "dataRows ?st' n =
          (if n = P then dataRows st P @ [rowOf args]
           else if n = A then take (firstRowIndex ?did (dataRows st A)) (dataRows st A)
              @ drop (Suc (firstRowIndex ?did (dataRows st A))) (dataRows st A)
           else dataRows st n)" for n
        by (simp add: eff(2))
      have "rowsBearing ?did ?st' n =
          (if n = P then [rowOf args] else if n = A then [] else rowsBearing ?did st n)" for n
        unfolding rowsBearing_def[of ?did ?st'] upd
        using app del by (simp add: rowsBearing_def)
      then show ?thesis
        using others PA by (simp add: eff(1))
    qed
  qed
  then show "rowsBearing ?did ?st' P = [rowOf args]"
    and "\<forall>n\<in>set SHEET_NAMES. n \<noteq> P \<longrightarrow> rowsBearing ?did ?st' n = []"
    and "fst (upsertWallet args st) = (if rowsBearing ?did st P = [] then Inserted else Updated)"
    by simp_all
qed

subsection \<open>The requests only accumulate\<close>

lemma fold_grows:
  assumes "\<And>x a. prefix (calls (p a)) (calls (p (f x a)))"
  shows "prefix (calls (p a)) (calls (p (fold f xs a)))"
proof (induction xs arbitrary: a)
  case Nil
  then show ?case by simp
next
  case (Cons x xs)
  from assms[of a x] Cons.IH[of "f x a"] show ?case
    by (simp add: prefix_order.trans)
qed

lemma prefix_ensureSheetSetup: "prefix (calls st) (calls (ensureSheetSetup st))"
  by (simp add: calls_ensureSheetSetup)

lemma prefix_deleteRowFromSheet: "prefix (calls st) (calls (deleteRowFromSheet s k st))"
  by (simp add: calls_deleteRowFromSheet)

lemma prefix_upsert_setup:
  "prefix (calls (ensureSheetSetup st)) (calls (snd (upsertWallet args st)))"
proof (cases "getSheetNameForRole (role args)")
  case None
  then show ?thesis by (simp add: upsertWallet_skip)
next
  case (Some P)
  let ?st2 = "snd (findExisting (discordId args) SHEET_NAMES (ensureSheetSetup st))"
  have scan: "prefix (calls (ensureSheetSetup st)) (calls ?st2)"
    by (rule prefix_findExisting)
  have del: "prefix (calls (ensureSheetSetup st)) (calls (deleteRowFromSheet s k ?st2))" for s k
    using scan prefix_deleteRowFromSheet by (rule prefix_order.trans)
  show ?thesis
    using scan del
    by (simp add: upsertWallet_unfold[OF Some] calls_values_append calls_values_update
        prefix_order.trans[OF _ prefix_snoc[THEN iffD2, OF disjI2]]
        split: option.split prod.split)
qed

lemma prefix_upsert: "prefix (calls st) (calls (snd (upsertWallet args st)))"
  using prefix_ensureSheetSetup prefix_upsert_setup by (rule prefix_order.trans)

lemma prefix_getWallet_setup:
  "prefix (calls (ensureSheetSetup st)) (calls (snd (getWallet did st)))"
  by (simp add: getWallet_def prefix_getWallet_sheets)

lemma prefix_listWallets_setup:
  "prefix (calls (ensureSheetSetup st)) (calls (snd (listWallets st)))"
proof -
  have "prefix (calls (snd ([] :: wallet_listed list, ensureSheetSetup st)))
      (calls (snd (fold listWallets_sheet SHEET_NAMES ([], ensureSheetSetup st))))"
    by (rule fold_grows[where p = snd and f = listWallets_sheet])
       (simp add: listWallets_sheet_def values_get_data split: prod.split)
  then show ?thesis by (simp add: listWallets_def)
qed

lemma prefix_listWalletsWithRow_setup:
  "prefix (calls (ensureSheetSetup st)) (calls (snd (listWalletsWithRow st)))"
proof -
  have "prefix (calls (snd ([] :: wallet_item list, ensureSheetSetup st)))
      (calls (snd (fold listWalletsWithRow_sheet SHEET_NAMES ([], ensureSheetSetup st))))"
    by (rule fold_grows[where p = snd and f = listWalletsWithRow_sheet])
       (simp add: listWalletsWithRow_sheet_def values_get_data split: prod.split)
  then show ?thesis by (simp add: listWalletsWithRow_def)
qed

lemma prefix_deleteSheetRows:
  "prefix (calls (snd a)) (calls (snd (deleteSheetRows e a)))"
proof -
  obtain s ns where e: "e = (s, ns)" by (cases e)
  show ?thesis
    unfolding e deleteSheetRows_def prod.case
    by (rule fold_grows[where p = snd]) (simp add: prefix_deleteRowFromSheet split: prod.split)
qed

lemma prefix_batchDeleteRows_setup:
  "prefix (calls (ensureSheetSetup st))
     (calls (case batchDeleteRows items st of Inl (e, st') \<Rightarrow> st' | Inr (k, st') \<Rightarrow> st'))"
proof -
  have "prefix (calls (snd (0::nat, ensureSheetSetup st)))
      (calls (snd (fold deleteSheetRows es (0, ensureSheetSetup st))))" for es
    by (rule fold_grows[where p = snd and f = deleteSheetRows]) (rule prefix_deleteSheetRows)
  then show ?thesis
    by (simp add: batchDeleteRows_def Let_def split: option.split sum.split prod.split)
       (metis snd_conv)
qed

lemma prefix_batchUpdateRoles_step:
  "prefix (calls (snd (snd a))) (calls (snd (snd (batchUpdateRoles_step u a))))"
proof -
  obtain x y st where a: "a = (x, y, st)" by (cases a)
  have "prefix (calls st) (calls (snd (upsertWallet args (deleteRowFromSheet s k st))))" for args s k
    using prefix_deleteRowFromSheet prefix_upsert by (rule prefix_order.trans)
  then show ?thesis
    unfolding a
    by (simp add: batchUpdateRoles_step_def Let_def prefix_deleteRowFromSheet calls_values_update
        split: option.split)
qed

lemma prefix_batchUpdateRoles_setup:
  "us \<noteq> [] \<Longrightarrow>
   prefix (calls (ensureSheetSetup st)) (calls (snd (batchUpdateRoles (Some us) st)))"
proof -
  assume "us \<noteq> []"
  have "prefix (calls (snd (snd (0::nat, 0::nat, ensureSheetSetup st))))
      (calls (snd (snd (fold batchUpdateRoles_step us (0, 0, ensureSheetSetup st)))))"
    by (rule fold_grows[where p = "\<lambda>a. snd (snd a)" and f = batchUpdateRoles_step])
       (rule prefix_batchUpdateRoles_step)
  with \<open>us \<noteq> []\<close> show ?thesis
    by (simp add: batchUpdateRoles_def split: prod.split) (metis snd_conv)
qed

subsection \<open>Evaluation on the example states\<close>

lemma SHEET_NAMES_literal: "SHEET_NAMES = [''Monadians'', ''Monarch'', ''Monalista'']"
  by (simp add: SHEET_NAMES_def MONADIANS_def MONARCH_def MONALISTA_def)

lemma names_differ:
  "MONADIANS \<noteq> MONARCH" "MONADIANS \<noteq> MONALISTA" "MONARCH \<noteq> MONALISTA"
  "MONARCH \<noteq> MONADIANS" "MONALISTA \<noteq> MONADIANS" "MONALISTA \<noteq> MONARCH"
  by (simp_all add: MONADIANS_def MONARCH_def MONALISTA_def)

lemma resolve_aliceArgs: "getSheetNameForRole (role aliceArgs) = Some MONADIANS"
  by (simp add: aliceArgs_def getSheetNameForRole_def toLowerCase_def toLowerCase_char_def)

lemma resolve_empty: "getSheetNameForRole (Some []) = None"
  by (simp add: getSheetNameForRole_def toLowerCase_def)

lemma discordId_aliceArgs: "discordId aliceArgs = ''u1''"
  by (simp add: aliceArgs_def)

lemma rowOf_aliceArgs: "rowOf aliceArgs = [''alice'', ''u1'', ''0xabc'', ''Monadian'']"
  by (simp add: rowOf_def aliceArgs_def roleOrEmpty_def)

lemma dataRows_storedRemote:
  "dataRows storedRemote MONADIANS = []"
  "dataRows storedRemote MONARCH = [[''alice'', ''u1'', ''0xabc'', ''Monarch'']]"
  "dataRows storedRemote MONALISTA = []"
  by (simp_all add: dataRows_def dataRowsOf_def gridOf_def storedRemote_def names_differ)

lemma dataRows_dupRemote:
  "dataRows dupRemote MONADIANS =
     [[''al'', ''u1'', ''0x111'', ''Monadian''], [''ali'', ''u1'', ''0x222'', ''Monadian'']]"
  "dataRows dupRemote MONARCH = []"
  "dataRows dupRemote MONALISTA = []"
  by (simp_all add: dataRows_def dataRowsOf_def gridOf_def dupRemote_def names_differ)

lemma dataRows_twoTabsRemote:
  "dataRows twoTabsRemote MONADIANS =
     [[''bob'', ''u2'', ''0xdef'', ''Monadian''], [''al'', ''u1'', ''0x111'', ''Monadian'']]"
  "dataRows twoTabsRemote MONARCH = [[''alice'', ''u1'', ''0xabc'', ''Monarch'']]"
  "dataRows twoTabsRemote MONALISTA = []"
  by (simp_all add: dataRows_def dataRowsOf_def gridOf_def twoTabsRemote_def names_differ)

lemma bears_u1:
  "bears ''u1'' [a, ''u1'', c, d]" "\<not> bears ''u1'' [a, ''u2'', c, d]"
  by (simp_all add: bears_def cellAt_def)

lemma rowsBearing_storedRemote:
  "rowsBearing ''u1'' storedRemote MONADIANS = []"
  "rowsBearing ''u1'' storedRemote MONARCH = [[''alice'', ''u1'', ''0xabc'', ''Monarch'']]"
  "rowsBearing ''u1'' storedRemote MONALISTA = []"
  by (simp_all add: rowsBearing_def dataRows_storedRemote bears_u1)

lemma rowsBearing_dupRemote:
  "rowsBearing ''u1'' dupRemote MONADIANS =
     [[''al'', ''u1'', ''0x111'', ''Monadian''], [''ali'', ''u1'', ''0x222'', ''Monadian'']]"
  "rowsBearing ''u1'' dupRemote MONARCH = []"
  "rowsBearing ''u1'' dupRemote MONALISTA = []"
  by (simp_all add: rowsBearing_def dataRows_dupRemote bears_u1)

lemma rowsBearing_twoTabsRemote:
  "rowsBearing ''u1'' twoTabsRemote MONADIANS = [[''al'', ''u1'', ''0x111'', ''Monadian'']]"
  "rowsBearing ''u1'' twoTabsRemote MONARCH = [[''alice'', ''u1'', ''0xabc'', ''Monarch'']]"
  by (simp_all add: rowsBearing_def dataRows_twoTabsRemote bears_u1)

lemma firstSheetWith_dupRemote: "firstSheetWith ''u1'' dupRemote = Some MONADIANS"
  by (simp add: firstSheetWith_def SHEET_NAMES_def rowsBearing_dupRemote)

lemma firstRowIndex_Cons:
  "firstRowIndex did (r # rs) = (if bears did r then 0 else Suc (firstRowIndex did rs))"
  by (simp add: firstRowIndex_def)

lemma upsert_dupRemote:
  "dataRows (snd (upsertWallet aliceArgs dupRemote)) MONADIANS =
     [[''alice'', ''u1'', ''0xabc'', ''Monadian''], [''ali'', ''u1'', ''0x222'', ''Monadian'']]"
  "dataRows (snd (upsertWallet aliceArgs dupRemote)) MONARCH = []"
  "dataRows (snd (upsertWallet aliceArgs dupRemote)) MONALISTA = []"
  using upsertWallet_update(2)[OF resolve_aliceArgs, of dupRemote]
  by (simp_all add: discordId_aliceArgs firstSheetWith_dupRemote firstRowIndex_Cons bears_u1
      dataRows_dupRemote rowOf_aliceArgs names_differ)

lemma allRowsBearing_single:
  assumes "P \<in> set SHEET_NAMES" "rowsBearing did st P = [v]"
    and "\<forall>n\<in>set SHEET_NAMES. n \<noteq> P \<longrightarrow> rowsBearing did st n = []"
  shows "allRowsBearing did st = [v]"
  unfolding allRowsBearing_def
  using SHEET_NAMES_distinct assms by (rule concat_single)

lemma firstSheetWith_single:
  assumes "P \<in> set SHEET_NAMES" "rowsBearing did st P \<noteq> []"
    and "\<forall>n\<in>set SHEET_NAMES. n \<noteq> P \<longrightarrow> rowsBearing did st n = []"
  shows "firstSheetWith did st = Some P"
proof -
  have "filter (\<lambda>n. rowsBearing did st n \<noteq> []) SHEET_NAMES = [P]"
    using SHEET_NAMES_distinct assms(1,2)
  proof (rule filter_single)
    show "\<forall>n\<in>set SHEET_NAMES. n \<noteq> P \<longrightarrow> \<not> rowsBearing did st n \<noteq> []"
      using assms(3) by simp
  qed
  then show ?thesis by (simp add: firstSheetWith_def)
qed

lemma upsertWallet_again:
  assumes P: "getSheetNameForRole (role args) = Some P"
    and one: "rowsBearing (discordId args) st P = [rowOf args]"
    and others: "\<forall>n\<in>set SHEET_NAMES. n \<noteq> P \<longrightarrow> rowsBearing (discordId args) st n = []"
  shows "fst (upsertWallet args st) = Updated"
    and "dataRows (snd (upsertWallet args st)) = dataRows st"
proof -
  have Pin: "P \<in> set SHEET_NAMES" using P by (rule getSheetNameForRole_in_SHEET_NAMES)
  from one have "rowsBearing (discordId args) st P \<noteq> []" by simp
  with Pin have here: "firstSheetWith (discordId args) st = Some P"
    using others by (rule firstSheetWith_single)
  note eff = upsertWallet_update[OF P here]
  show "fst (upsertWallet args st) = Updated" by (rule eff(1))
  have "(dataRows st P)[firstRowIndex (discordId args) (dataRows st P) := rowOf args] = dataRows st P"
    using one unfolding rowsBearing_def by (rule first_row_unchanged)
  then show "dataRows (snd (upsertWallet args st)) = dataRows st"
    by (simp add: eff(2))
qed

text \<open>
  Claim C1, amended. When the role resolves to the tab \<open>P\<close> and at most one row in all
  three tabs bears the identifier, then after the upsert exactly one row bears it: it is
  in \<open>P\<close> and holds the new username, identifier, wallet and role, and no other tab
  has a row bearing the identifier (so a tab that held the row before has none left).
\<close>

theorem upsertWallet_one_row:
  assumes "getSheetNameForRole (role args) = Some P"
    and "length (allRowsBearing (discordId args) st) \<le> 1"
  shows "P \<in> set SHEET_NAMES
    \<and> rowsBearing (discordId args) (snd (upsertWallet args st)) P = [rowOf args]
    \<and> (\<forall>n\<in>set SHEET_NAMES. n \<noteq> P \<longrightarrow>
          rowsBearing (discordId args) (snd (upsertWallet args st)) n = [])
    \<and> allRowsBearing (discordId args) (snd (upsertWallet args st)) = [rowOf args]
    \<and> rowOf args = [discordUsername args, discordId args, wallet args, roleOrEmpty (role args)]"
proof -
  have Pin: "P \<in> set SHEET_NAMES" using assms(1) by (rule getSheetNameForRole_in_SHEET_NAMES)
  note r = upsertWallet_rows[OF assms]
  from Pin r(1) r(2) have "allRowsBearing (discordId args) (snd (upsertWallet args st)) = [rowOf args]"
    by (rule allRowsBearing_single)
  with Pin r(1) r(2) show ?thesis by (simp add: rowOf_def)
qed

theorem upsertWallet_one_row_witness:
  "getSheetNameForRole (role aliceArgs) = Some MONADIANS
   \<and> length (allRowsBearing (discordId aliceArgs) storedRemote) \<le> 1
   \<and> rowsBearing (discordId aliceArgs) storedRemote MONARCH \<noteq> []
   \<and> rowsBearing (discordId aliceArgs) (snd (upsertWallet aliceArgs storedRemote)) MONADIANS
       = [[''alice'', ''u1'', ''0xabc'', ''Monadian'']]
   \<and> rowsBearing (discordId aliceArgs) (snd (upsertWallet aliceArgs storedRemote)) MONARCH = []"
proof -
  have one: "length (allRowsBearing (discordId aliceArgs) storedRemote) \<le> 1"
    by (simp add: allRowsBearing_def SHEET_NAMES_def discordId_aliceArgs rowsBearing_storedRemote)
  from upsertWallet_one_row[OF resolve_aliceArgs one] show ?thesis
    using resolve_aliceArgs one
    by (simp add: SHEET_NAMES_def names_differ rowOf_aliceArgs discordId_aliceArgs
        rowsBearing_storedRemote)
qed

theorem upsertWallet_one_row_counterexample:
  "length (partitionsHolding (discordId aliceArgs) dupRemote) \<le> 1
   \<and> getSheetNameForRole (role aliceArgs) = Some MONADIANS
   \<and> rowsBearing (discordId aliceArgs) (snd (upsertWallet aliceArgs dupRemote)) MONADIANS
       = [[''alice'', ''u1'', ''0xabc'', ''Monadian''], [''ali'', ''u1'', ''0x222'', ''Monadian'']]"
  by (simp add: partitionsHolding_def SHEET_NAMES_def discordId_aliceArgs rowsBearing_dupRemote
      resolve_aliceArgs rowsBearing_def[of _ "snd (upsertWallet aliceArgs dupRemote)"]
      upsert_dupRemote bears_u1)

text \<open>
  Claim C4, amended. When the role resolves and at most one row in all three tabs bears
  the identifier, a second upsert with the same arguments returns \<open>Updated\<close>, leaves
  the data rows of every tab as the first upsert left them, and one row, with the new
  values, bears the identifier.
\<close>

theorem upsertWallet_twice:
  assumes "getSheetNameForRole (role args) = Some P"
    and "length (allRowsBearing (discordId args) st) \<le> 1"
  shows "fst (upsertWallet args (snd (upsertWallet args st))) = Updated
    \<and> dataRows (snd (upsertWallet args (snd (upsertWallet args st))))
        = dataRows (snd (upsertWallet args st))
    \<and> allRowsBearing (discordId args) (snd (upsertWallet args (snd (upsertWallet args st))))
        = [rowOf args]"
proof -
  let ?st' = "snd (upsertWallet args st)"
  have Pin: "P \<in> set SHEET_NAMES" using assms(1) by (rule getSheetNameForRole_in_SHEET_NAMES)
  note r = upsertWallet_rows[OF assms]
  note again = upsertWallet_again[OF assms(1) r(1) r(2)]
  have "rowsBearing (discordId args) (snd (upsertWallet args ?st')) = rowsBearing (discordId args) ?st'"
    by (rule ext) (simp add: rowsBearing_def again(2))
  then have "allRowsBearing (discordId args) (snd (upsertWallet args ?st'))
      = allRowsBearing (discordId args) ?st'"
    by (simp add: allRowsBearing_def)
  also have "\<dots> = [rowOf args]" using Pin r(1) r(2) by (rule allRowsBearing_single)
  finally show ?thesis using again by simp
qed

theorem upsertWallet_twice_witness:
  "getSheetNameForRole (role aliceArgs) = Some MONADIANS
   \<and> length (allRowsBearing (discordId aliceArgs) storedRemote) \<le> 1
   \<and> fst (upsertWallet aliceArgs (snd (upsertWallet aliceArgs storedRemote))) = Updated
   \<and> allRowsBearing (discordId aliceArgs)
        (snd (upsertWallet aliceArgs (snd (upsertWallet aliceArgs storedRemote))))
       = [[''alice'', ''u1'', ''0xabc'', ''Monadian'']]"
proof -
  have one: "length (allRowsBearing (discordId aliceArgs) storedRemote) \<le> 1"
    by (simp add: allRowsBearing_def SHEET_NAMES_def discordId_aliceArgs rowsBearing_storedRemote)
  from upsertWallet_twice[OF resolve_aliceArgs one] show ?thesis
    using resolve_aliceArgs one by (simp add: rowOf_aliceArgs)
qed

theorem upsertWallet_twice_counterexample:
  "length (partitionsHolding (discordId aliceArgs) dupRemote) \<le> 1
   \<and> getSheetNameForRole (role aliceArgs) = Some MONADIANS
   \<and> rowsBearing (discordId aliceArgs)
        (snd (upsertWallet aliceArgs (snd (upsertWallet aliceArgs dupRemote)))) MONADIANS
       = [[''alice'', ''u1'', ''0xabc'', ''Monadian''], [''ali'', ''u1'', ''0x222'', ''Monadian'']]"
proof -
  let ?st' = "snd (upsertWallet aliceArgs dupRemote)"
  have rb: "rowsBearing ''u1'' ?st' MONADIANS
      = [[''alice'', ''u1'', ''0xabc'', ''Monadian''], [''ali'', ''u1'', ''0x222'', ''Monadian'']]"
    "rowsBearing ''u1'' ?st' MONARCH = []" "rowsBearing ''u1'' ?st' MONALISTA = []"
    by (simp_all add: rowsBearing_def upsert_dupRemote bears_u1)
  have here: "firstSheetWith (discordId aliceArgs) ?st' = Some MONADIANS"
    by (simp add: firstSheetWith_def SHEET_NAMES_def discordId_aliceArgs rb)
  from upsertWallet_update(2)[OF resolve_aliceArgs here]
  have "dataRows (snd (upsertWallet aliceArgs ?st')) MONADIANS
      = [[''alice'', ''u1'', ''0xabc'', ''Monadian''], [''ali'', ''u1'', ''0x222'', ''Monadian'']]"
    by (simp add: discordId_aliceArgs upsert_dupRemote firstRowIndex_Cons bears_u1 rowOf_aliceArgs)
  then show ?thesis
    by (simp add: partitionsHolding_def SHEET_NAMES_def discordId_aliceArgs rowsBearing_dupRemote
        resolve_aliceArgs rowsBearing_def[of _ "snd (upsertWallet aliceArgs ?st')"] bears_u1)
qed

text \<open>
  Claim C3. When the role resolves to no tab (as the empty string does), the upsert
  returns \<open>Skipped\<close>, the data rows of every tab are as before, and none of the
  requests sent writes, appends or deletes below a header row.
\<close>

theorem upsertWallet_skipped:
  assumes "getSheetNameForRole (role args) = None"
  shows "fst (upsertWallet args st) = Skipped
    \<and> dataRows (snd (upsertWallet args st)) = dataRows st
    \<and> list_all (\<lambda>c. \<not> touchesData c) (newCalls st (snd (upsertWallet args st)))
    \<and> getSheetNameForRole (Some []) = None"
  using assms
  by (simp add: upsertWallet_skip newCalls_ensureSheetSetup setupCalls_no_data resolve_empty)

theorem upsertWallet_skipped_witness:
  "getSheetNameForRole (role (aliceArgs\<lparr>role := Some []\<rparr>)) = None
   \<and> fst (upsertWallet (aliceArgs\<lparr>role := Some []\<rparr>) storedRemote) = Skipped
   \<and> dataRows (snd (upsertWallet (aliceArgs\<lparr>role := Some []\<rparr>) storedRemote)) MONARCH
       = [[''alice'', ''u1'', ''0xabc'', ''Monarch'']]"
proof -
  have n: "getSheetNameForRole (role (aliceArgs\<lparr>role := Some []\<rparr>)) = None"
    by (simp add: resolve_empty)
  from upsertWallet_skipped[OF n, of storedRemote] n show ?thesis
    by (simp add: dataRows_storedRemote)
qed

section \<open>Properties of the locator and of the header invariant\<close>

lemma located_partitionsHolding:
  "located did st =
     (case partitionsHolding did st of
        [] \<Rightarrow> None
      | n # _ \<Rightarrow> Some (n, firstRowIndex did (dataRows st n) + 2))"
  by (simp add: located_def firstSheetWith_def partitionsHolding_def split: list.split)

lemma getWallet_None:
  "fst (getWallet did st) = None \<longleftrightarrow> list_all (\<lambda>n. rowsBearing did st n = []) SHEET_NAMES"
  by (simp add: getWallet_fst find_concat_None list_all_iff rowsBearing_def)

lemma find_first_of_filter: "filter P xs = r # rs \<Longrightarrow> find P xs = Some r"
  by (induction xs) (simp_all split: if_splits)

lemma getWallet_highest_priority:
  assumes "rowsBearing did st MONADIANS = r # rs"
  shows "fst (getWallet did st) = Some (foundRecord did r)"
proof -
  from assms have "find (bears did) (dataRows st MONADIANS) = Some r"
    unfolding rowsBearing_def by (rule find_first_of_filter)
  then show ?thesis
    by (simp add: getWallet_fst SHEET_NAMES_def find_append)
qed

text \<open>
  Claim C8. The tabs are scanned in the fixed order Monadians, Monarch, Monalista, and
  the data rows of a tab in row order. \<^verbatim>\<open>getWallet\<close> returns the record of the first
  row, in that order, whose identity column is the identifier, and the scan of
  \<^verbatim>\<open>upsertWallet\<close> returns the location of the same row: the first tab that holds
  the identifier and the row number of its first such row. Both return nothing exactly
  when no row of the three tabs bears the identifier. A row in Monadians wins over the
  rows that bear the same identifier in the later tabs, which are ignored.
\<close>

theorem locator_first_match:
  "SHEET_NAMES = [''Monadians'', ''Monarch'', ''Monalista'']
   \<and> fst (getWallet did st)
       = map_option (foundRecord did) (find (bears did) (concat (map (dataRows st) SHEET_NAMES)))
   \<and> fst (findExisting did SHEET_NAMES (ensureSheetSetup st))
       = (case partitionsHolding did st of
            [] \<Rightarrow> None
          | n # _ \<Rightarrow> Some (n, firstRowIndex did (dataRows st n) + 2))
   \<and> (fst (getWallet did st) = None \<longleftrightarrow> list_all (\<lambda>n. rowsBearing did st n = []) SHEET_NAMES)
   \<and> (fst (findExisting did SHEET_NAMES (ensureSheetSetup st)) = None
        \<longleftrightarrow> list_all (\<lambda>n. rowsBearing did st n = []) SHEET_NAMES)
   \<and> (rowsBearing did st MONADIANS = r # rs \<longrightarrow>
         fst (getWallet did st) = Some (foundRecord did r)
       \<and> fst (findExisting did SHEET_NAMES (ensureSheetSetup st))
           = Some (MONADIANS, firstRowIndex did (dataRows st MONADIANS) + 2))"
proof (intro conjI impI)
  show "SHEET_NAMES = [''Monadians'', ''Monarch'', ''Monalista'']"
    by (rule SHEET_NAMES_literal)
  show "fst (getWallet did st)
       = map_option (foundRecord did) (find (bears did) (concat (map (dataRows st) SHEET_NAMES)))"
    by (rule getWallet_fst)
  have a: "fst (findExisting did SHEET_NAMES (ensureSheetSetup st)) = located did st"
    by (simp add: findExisting_located)
  show "fst (findExisting did SHEET_NAMES (ensureSheetSetup st))
       = (case partitionsHolding did st of
            [] \<Rightarrow> None
          | n # _ \<Rightarrow> Some (n, firstRowIndex did (dataRows st n) + 2))"
    unfolding a by (rule located_partitionsHolding)
  show "fst (getWallet did st) = None \<longleftrightarrow> list_all (\<lambda>n. rowsBearing did st n = []) SHEET_NAMES"
    by (rule getWallet_None)
  show "fst (findExisting did SHEET_NAMES (ensureSheetSetup st)) = None
        \<longleftrightarrow> list_all (\<lambda>n. rowsBearing did st n = []) SHEET_NAMES"
    unfolding a by (simp add: located_None firstSheetWith_None)
next
  assume h: "rowsBearing did st MONADIANS = r # rs"
  then show "fst (getWallet did st) = Some (foundRecord did r)"
    by (rule getWallet_highest_priority)
  from h have "firstSheetWith did st = Some MONADIANS"
    by (simp add: firstSheetWith_def SHEET_NAMES_def)
  then have "located did st = Some (MONADIANS, firstRowIndex did (dataRows st MONADIANS) + 2)"
    by (rule located_Some)
  then show "fst (findExisting did SHEET_NAMES (ensureSheetSetup st))
           = Some (MONADIANS, firstRowIndex did (dataRows st MONADIANS) + 2)"
    by (simp add: findExisting_located)
qed

theorem locator_first_match_witness:
  "rowsBearing ''u1'' twoTabsRemote MONADIANS = [[''al'', ''u1'', ''0x111'', ''Monadian'']]
   \<and> rowsBearing ''u1'' twoTabsRemote MONARCH = [[''alice'', ''u1'', ''0xabc'', ''Monarch'']]
   \<and> fst (getWallet ''u1'' twoTabsRemote)
       = Some \<lparr>found_discordUsername = Some ''al'', found_discordId = ''u1'',
               found_wallet = Some ''0x111'', found_role = ''Monadian''\<rparr>
   \<and> fst (findExisting ''u1'' SHEET_NAMES (ensureSheetSetup twoTabsRemote)) = Some (MONADIANS, 3)"
proof -
  have pre: "rowsBearing ''u1'' twoTabsRemote MONADIANS = [''al'', ''u1'', ''0x111'', ''Monadian''] # []"
    by (simp add: rowsBearing_twoTabsRemote)
  from locator_first_match[of "''u1''" twoTabsRemote "[''al'', ''u1'', ''0x111'', ''Monadian'']" "[]"]
  have "rowsBearing ''u1'' twoTabsRemote MONADIANS = [''al'', ''u1'', ''0x111'', ''Monadian''] # [] \<longrightarrow>
         fst (getWallet ''u1'' twoTabsRemote) = Some (foundRecord ''u1'' [''al'', ''u1'', ''0x111'', ''Monadian''])
       \<and> fst (findExisting ''u1'' SHEET_NAMES (ensureSheetSetup twoTabsRemote))
           = Some (MONADIANS, firstRowIndex ''u1'' (dataRows twoTabsRemote MONADIANS) + 2)"
    by (elim conjE)
  with pre have g: "fst (getWallet ''u1'' twoTabsRemote) = Some (foundRecord ''u1'' [''al'', ''u1'', ''0x111'', ''Monadian''])"
    and f: "fst (findExisting ''u1'' SHEET_NAMES (ensureSheetSetup twoTabsRemote))
           = Some (MONADIANS, firstRowIndex ''u1'' (dataRows twoTabsRemote MONADIANS) + 2)"
    by (simp_all only: simp_thms)
  have i: "firstRowIndex ''u1'' (dataRows twoTabsRemote MONADIANS) + 2 = 3"
    by (simp add: dataRows_twoTabsRemote firstRowIndex_Cons bears_u1)
  have r: "foundRecord ''u1'' [''al'', ''u1'', ''0x111'', ''Monadian'']
      = \<lparr>found_discordUsername = Some ''al'', found_discordId = ''u1'',
               found_wallet = Some ''0x111'', found_role = ''Monadian''\<rparr>"
    by (simp add: foundRecord_def cellAt_def cellOr_def)
  show ?thesis
    unfolding g f i r by (simp add: rowsBearing_twoTabsRemote)
qed

text \<open>
  Claim C9, amended. After \<^verbatim>\<open>ensureSheetSetup\<close> each of the three tabs exists and its
  header cells are the schema; the header of a tab is written if and only if its cells
  were absent or differed from the schema; no other row is written or deleted. The
  requests of \<^verbatim>\<open>upsertWallet\<close>, \<^verbatim>\<open>getWallet\<close>, \<^verbatim>\<open>listWallets\<close>,
  \<^verbatim>\<open>listWalletsWithRow\<close> and \<^verbatim>\<open>batchDeleteRows\<close> start with those of
  \<^verbatim>\<open>ensureSheetSetup\<close>, and so do those of \<^verbatim>\<open>batchUpdateRoles\<close> when it is given
  a non-empty array.
\<close>

theorem ensureSheetSetup_headers:
  "(n \<in> set SHEET_NAMES \<longrightarrow>
        sheets (ensureSheetSetup st) n \<noteq> None
      \<and> headerCells (ensureSheetSetup st) n = HEADER_ROW
      \<and> (Values_update n A1_D1 HEADER_ROW \<in> set (newCalls st (ensureSheetSetup st))
           \<longleftrightarrow> headerCells st n \<noteq> HEADER_ROW))
   \<and> list_all (\<lambda>c. \<not> touchesData c) (newCalls st (ensureSheetSetup st))
   \<and> dataRows (ensureSheetSetup st) = dataRows st
   \<and> HEADER_ROW = [''Discord Username'', ''Discord ID'', ''EVM Wallet'', ''Role'']
   \<and> prefix (calls (ensureSheetSetup st)) (calls (snd (upsertWallet args st)))
   \<and> prefix (calls (ensureSheetSetup st)) (calls (snd (getWallet did st)))
   \<and> prefix (calls (ensureSheetSetup st)) (calls (snd (listWallets st)))
   \<and> prefix (calls (ensureSheetSetup st)) (calls (snd (listWalletsWithRow st)))
   \<and> prefix (calls (ensureSheetSetup st))
        (calls (case batchDeleteRows items st of Inl (e, st') \<Rightarrow> st' | Inr (k, st') \<Rightarrow> st'))
   \<and> (us \<noteq> [] \<longrightarrow>
        prefix (calls (ensureSheetSetup st)) (calls (snd (batchUpdateRoles (Some us) st))))"
  by (simp add: headerCells_ensureSheetSetup newCalls_ensureSheetSetup header_update_in_setupCalls
      setupCalls_no_data HEADER_ROW_def[symmetric] prefix_upsert_setup prefix_getWallet_setup
      prefix_listWallets_setup prefix_listWalletsWithRow_setup prefix_batchDeleteRows_setup
      prefix_batchUpdateRoles_setup)


theorem ensureSheetSetup_headers_witness:
  "MONADIANS \<in> set SHEET_NAMES
   \<and> headerCells emptyRemote MONADIANS \<noteq> HEADER_ROW
   \<and> headerCells (ensureSheetSetup emptyRemote) MONADIANS = HEADER_ROW
   \<and> Values_update MONADIANS A1_D1 HEADER_ROW \<in> set (newCalls emptyRemote (ensureSheetSetup emptyRemote))
   \<and> [lostRole1] \<noteq> []
   \<and> prefix (calls (ensureSheetSetup emptyRemote))
        (calls (snd (batchUpdateRoles (Some [lostRole1]) emptyRemote)))"
proof -
  have a: "MONADIANS \<in> set SHEET_NAMES" by (simp add: SHEET_NAMES_def)
  have b: "headerCells emptyRemote MONADIANS \<noteq> HEADER_ROW"
    by (simp add: headerCells_def gridOf_def emptyRemote_def headerOf_def HEADER_ROW_not_Nil[symmetric])
  from ensureSheetSetup_headers[of MONADIANS emptyRemote _ _ _ "[lostRole1]"] a b
  show ?thesis by simp
qed

theorem batchUpdateRoles_empty_counterexample:
  "snd (batchUpdateRoles (Some []) emptyRemote) = emptyRemote
   \<and> sheets (snd (batchUpdateRoles (Some []) emptyRemote)) MONADIANS = None
   \<and> \<not> prefix (calls (ensureSheetSetup emptyRemote))
          (calls (snd (batchUpdateRoles (Some []) emptyRemote)))"
  by (simp add: batchUpdateRoles_def calls_ensureSheetSetup)
     (simp add: emptyRemote_def setupCalls_def)

subsection \<open>Batch role updates\<close>

lemma batchUpdateRoles_step_counts:
  "batchUpdateRoles_step u (x, y, st) =
     (x + (if movesSheet u then 0 else 1), y + (if movesSheet u then 1 else 0), applyUpdate u st)"
  by (simp add: batchUpdateRoles_step_def movesSheet_def applyUpdate_def Let_def split: option.split)

lemma fold_batchUpdateRoles_step:
  "fold batchUpdateRoles_step us (x, y, st) =
     (x + length (filter (\<lambda>u. \<not> movesSheet u) us), y + length (filter movesSheet us),
      fold applyUpdate us st)"
  by (induction us arbitrary: x y st) (simp_all add: batchUpdateRoles_step_counts)

lemma batchUpdateRoles_counts:
  "fst (batchUpdateRoles (Some us) st) =
     (length (filter (\<lambda>u. \<not> movesSheet u) us), length (filter movesSheet us))"
  by (cases "us = []") (simp_all add: batchUpdateRoles_def fold_batchUpdateRoles_step)

lemma batchUpdateRoles_state:
  "us \<noteq> [] \<Longrightarrow> snd (batchUpdateRoles (Some us) st) = fold applyUpdate us (ensureSheetSetup st)"
  by (simp add: batchUpdateRoles_def fold_batchUpdateRoles_step)

lemma applyUpdate_delete:
  "getSheetNameForRole (upd_newRole u) = None \<Longrightarrow>
   applyUpdate u st = deleteRowFromSheet (upd_sheetName u) (upd_rowNumber u) st"
  by (simp add: applyUpdate_def batchUpdateRoles_step_def)

lemma applyUpdate_move:
  "getSheetNameForRole (upd_newRole u) = Some t \<Longrightarrow> t \<noteq> upd_sheetName u \<Longrightarrow>
   applyUpdate u st =
     snd (upsertWallet
            \<lparr>discordId = upd_discordId u, discordUsername = upd_discordUsername u,
             wallet = upd_wallet u, role = upd_newRole u\<rparr>
            (deleteRowFromSheet (upd_sheetName u) (upd_rowNumber u) st))"
  by (auto simp: applyUpdate_def batchUpdateRoles_step_def)

lemma applyUpdate_role:
  "getSheetNameForRole (upd_newRole u) = Some (upd_sheetName u) \<Longrightarrow>
   applyUpdate u st =
     values_update (upd_sheetName u) (Dn_Dn (upd_rowNumber u)) [roleOrEmpty (upd_newRole u)] st"
  by (simp add: applyUpdate_def batchUpdateRoles_step_def)

lemma cellOr_role_write:
  "cellOr (writeCells r 3 [v]) 0 = cellOr r 0"
  "cellOr (writeCells r 3 [v]) 1 = cellOr r 1"
  "cellOr (writeCells r 3 [v]) 2 = cellOr r 2"
  "cellOr (writeCells r 3 [v]) 3 = v"
proof -
  consider "r = []" | a where "r = [a]" | a b where "r = [a, b]"
    | a b c rest where "r = a # b # c # rest"
  proof (cases r)
    case Nil
    then show ?thesis by (rule that(1))
  next
    case c1: (Cons a r1)
    show ?thesis
    proof (cases r1)
      case Nil
      with c1 show ?thesis by (simp add: that(2))
    next
      case c2: (Cons b r2)
      show ?thesis
      proof (cases r2)
        case Nil
        with c1 c2 show ?thesis by (simp add: that(3))
      next
        case (Cons c rest)
        with c1 c2 show ?thesis by (simp add: that(4))
      qed
    qed
  qed
  then show "cellOr (writeCells r 3 [v]) 0 = cellOr r 0"
    "cellOr (writeCells r 3 [v]) 1 = cellOr r 1"
    "cellOr (writeCells r 3 [v]) 2 = cellOr r 2"
    "cellOr (writeCells r 3 [v]) 3 = v"
    by (cases; simp add: cellOr_def cellAt_def writeCells_def numeral_3_eq_3)+
qed

lemma gridOf_role_write:
  "0 < k \<Longrightarrow> k \<le> length (gridOf st s) \<Longrightarrow>
   gridOf (values_update s (Dn_Dn k) [v] st) n =
     (if n = s then (gridOf st s)[k - 1 := writeCells (gridOf st s ! (k - 1)) 3 [v]]
      else gridOf st n)"
  by (cases "sheets st s")
     (simp_all add: gridOf_values_update rangeWrite_def writeRowAt_inside, simp add: gridOf_def)

lemma gridOf_delete_row:
  "gridOf (deleteRowFromSheet s k st) n =
     (if n = s \<and> 0 < k then take (k - 1) (gridOf st s) @ drop k (gridOf st s) else gridOf st n)"
  by (simp add: gridOf_deleteRowFromSheet deleteRows_def)

text \<open>
  A transition that moves performs the upsert on the state that the deletion leaves: the
  data rows afterwards, by the tab in which the scan finds the identifier.
\<close>

lemma rowOf_move:
  "rowOf \<lparr>discordId = upd_discordId u, discordUsername = upd_discordUsername u,
          wallet = upd_wallet u, role = upd_newRole u\<rparr> = movedRow u"
  by (simp add: rowOf_def movedRow_def)

lemma applyUpdate_move_rows:
  fixes u st
  defines "st1 \<equiv> deleteRowFromSheet (upd_sheetName u) (upd_rowNumber u) st"
  assumes t: "getSheetNameForRole (upd_newRole u) = Some t" and ne: "t \<noteq> upd_sheetName u"
  shows "dataRows (applyUpdate u st) =
     (case firstSheetWith (upd_discordId u) st1 of
        None \<Rightarrow> (dataRows st1)(t := dataRows st1 t @ [movedRow u])
      | Some A \<Rightarrow>
          if A = t
          then (dataRows st1)
                 (t := (dataRows st1 t)[firstRowIndex (upd_discordId u) (dataRows st1 t) := movedRow u])
          else (dataRows st1)
                 (A := take (firstRowIndex (upd_discordId u) (dataRows st1 A)) (dataRows st1 A)
                       @ drop (Suc (firstRowIndex (upd_discordId u) (dataRows st1 A))) (dataRows st1 A),
                  t := dataRows st1 t @ [movedRow u]))"
proof -
  let ?args = "\<lparr>discordId = upd_discordId u, discordUsername = upd_discordUsername u,
          wallet = upd_wallet u, role = upd_newRole u\<rparr>"
  have a: "applyUpdate u st = snd (upsertWallet ?args st1)"
    unfolding st1_def using t ne by (rule applyUpdate_move)
  have P: "getSheetNameForRole (role ?args) = Some t" using t by simp
  show ?thesis
  proof (cases "firstSheetWith (upd_discordId u) st1")
    case None
    then have "firstSheetWith (discordId ?args) st1 = None" by simp
    from upsertWallet_insert(2)[OF P this] show ?thesis
      by (simp add: a None rowOf_move)
  next
    case (Some A)
    show ?thesis
    proof (cases "A = t")
      case True
      with Some have "firstSheetWith (discordId ?args) st1 = Some t" by simp
      from upsertWallet_update(2)[OF P this] show ?thesis
        by (simp add: a Some True rowOf_move)
    next
      case False
      from Some have "firstSheetWith (discordId ?args) st1 = Some A" by simp
      from upsertWallet_move(2)[OF P this False] show ?thesis
        by (simp add: a Some False rowOf_move)
    qed
  qed
qed

lemma applyUpdate_move_arrives:
  assumes t: "getSheetNameForRole (upd_newRole u) = Some t" and ne: "t \<noteq> upd_sheetName u"
  shows "movedRow u \<in> set (dataRows (applyUpdate u st) t)"
proof -
  let ?st1 = "deleteRowFromSheet (upd_sheetName u) (upd_rowNumber u) st"
  let ?did = "upd_discordId u"
  note eff = applyUpdate_move_rows[OF t ne, of st]
  show ?thesis
  proof (cases "firstSheetWith ?did ?st1")
    case None
    then show ?thesis by (simp add: eff)
  next
    case (Some A)
    show ?thesis
    proof (cases "A = t")
      case True
      from firstSheetWith_Some[OF Some]
      have "filter (bears ?did) (dataRows ?st1 t) \<noteq> []" by (simp add: rowsBearing_def True)
      then have "firstRowIndex ?did (dataRows ?st1 t) < length (dataRows ?st1 t)"
        by (rule firstRowIndex_less)
      then show ?thesis by (simp add: eff Some True set_update_memI)
    next
      case False
      then show ?thesis by (simp add: eff Some)
    qed
  qed
qed

lemma filter_without:
  "k < length rows \<Longrightarrow> P (rows ! k) \<Longrightarrow>
   length (filter P rows) = Suc (length (filter P (take k rows @ drop (Suc k) rows)))"
proof -
  assume k: "k < length rows" and p: "P (rows ! k)"
  have "filter P rows = filter P (take k rows @ rows ! k # drop (Suc k) rows)"
    using k by (simp only: id_take_nth_drop[symmetric])
  then show ?thesis using p by simp
qed

lemma bears_movedRow [simp]: "bears (upd_discordId u) (movedRow u)"
  by (simp add: bears_def movedRow_def cellAt_def)

lemma only_row_elsewhere:
  assumes s: "s \<in> set SHEET_NAMES"
    and k: "k < length (dataRows st s)"
    and b: "bears did (dataRows st s ! k)"
    and one: "length (allRowsBearing did st) \<le> 1"
  shows "filter (bears did) (take k (dataRows st s) @ drop (Suc k) (dataRows st s)) = []"
    and "\<forall>n\<in>set SHEET_NAMES. n \<noteq> s \<longrightarrow> rowsBearing did st n = []"
proof -
  let ?rest = "take k (dataRows st s) @ drop (Suc k) (dataRows st s)"
  from filter_without[of k "dataRows st s" "bears did", OF k b]
  have len: "length (rowsBearing did st s) = Suc (length (filter (bears did) ?rest))"
    by (simp add: rowsBearing_def)
  then have "rowsBearing did st s \<noteq> []" by auto
  from concat_at_most_one[OF one[unfolded allRowsBearing_def] SHEET_NAMES_distinct s this]
  have l1: "length (rowsBearing did st s) = 1"
    and others: "\<forall>n\<in>set SHEET_NAMES. n \<noteq> s \<longrightarrow> rowsBearing did st n = []" by simp_all
  from len l1 show "filter (bears did) ?rest = []" by simp
  from others show "\<forall>n\<in>set SHEET_NAMES. n \<noteq> s \<longrightarrow> rowsBearing did st n = []" .
qed

lemma applyUpdate_move_single:
  assumes t: "getSheetNameForRole (upd_newRole u) = Some t" and ne: "t \<noteq> upd_sheetName u"
    and s: "upd_sheetName u \<in> set SHEET_NAMES"
    and rn: "upd_rowNumber u = k + 2"
    and k: "k < length (dataRows st (upd_sheetName u))"
    and b: "bears (upd_discordId u) (dataRows st (upd_sheetName u) ! k)"
    and one: "length (allRowsBearing (upd_discordId u) st) \<le> 1"
  shows "dataRows (applyUpdate u st) =
     (dataRows st)
       (upd_sheetName u := take k (dataRows st (upd_sheetName u))
                           @ drop (Suc k) (dataRows st (upd_sheetName u)),
        t := dataRows st t @ [movedRow u])"
    and "rowsBearing (upd_discordId u) (applyUpdate u st) t = [movedRow u]"
    and "\<forall>n\<in>set SHEET_NAMES. n \<noteq> t \<longrightarrow> rowsBearing (upd_discordId u) (applyUpdate u st) n = []"
proof -
  let ?s = "upd_sheetName u"
  let ?did = "upd_discordId u"
  let ?st1 = "deleteRowFromSheet ?s (upd_rowNumber u) st"
  let ?rest = "take k (dataRows st ?s) @ drop (Suc k) (dataRows st ?s)"
  note gone = only_row_elsewhere(1)[OF s k b one]
  note others = only_row_elsewhere(2)[OF s k b one]
  have tin: "t \<in> set SHEET_NAMES" using t by (rule getSheetNameForRole_in_SHEET_NAMES)
  have d: "dataRows ?st1 = (dataRows st)(?s := ?rest)"
    by (simp add: rn dataRows_deleteRowFromSheet)
  have "\<forall>n\<in>set SHEET_NAMES. rowsBearing ?did ?st1 n = []"
    using others gone by (simp add: rowsBearing_upd[OF d])
  then have none: "firstSheetWith ?did ?st1 = None"
    by (simp add: firstSheetWith_None list_all_iff)
  from applyUpdate_move_rows[OF t ne, of st]
  show eq: "dataRows (applyUpdate u st) = (dataRows st)(?s := ?rest, t := dataRows st t @ [movedRow u])"
    using ne by (simp add: none d)
  have tt: "rowsBearing ?did st t = []" using others tin ne by simp
  show "rowsBearing ?did (applyUpdate u st) t = [movedRow u]"
    using tt by (simp add: rowsBearing_def eq)
  show "\<forall>n\<in>set SHEET_NAMES. n \<noteq> t \<longrightarrow> rowsBearing ?did (applyUpdate u st) n = []"
  proof (intro ballI impI)
    fix n assume n: "n \<in> set SHEET_NAMES" "n \<noteq> t"
    show "rowsBearing ?did (applyUpdate u st) n = []"
    proof (cases "n = ?s")
      case True
      with n gone show ?thesis by (simp add: rowsBearing_def eq)
    next
      case False
      with n others have "rowsBearing ?did st n = []" by simp
      with n False show ?thesis by (simp add: rowsBearing_def eq)
    qed
  qed
qed

lemma take4_role_write: "take 4 (writeCells r 3 [v]) = writeCells (take 4 r) 3 [v]"
  by (simp add: writeCells_def min_def) arith

lemma dataRows_role_write:
  assumes j: "j < length (dataRows st s)"
  shows "dataRows (values_update s (Dn_Dn (Suc (Suc j))) [v] st) =
     (dataRows st)(s := (dataRows st s)[j := writeCells (dataRows st s ! j) 3 [v]])"
proof (rule ext)
  fix n
  from j have j': "j < length (dataRowsOf (gridOf st s))" by (simp add: dataRows_def)
  then have len: "Suc (Suc j) \<le> length (gridOf st s)" by (simp add: dataRowsOf_def)
  have g: "gridOf (values_update s (Dn_Dn (Suc (Suc j))) [v] st) n =
      (if n = s then (gridOf st s)[Suc j := writeCells (gridOf st s ! Suc j) 3 [v]]
       else gridOf st n)"
    using gridOf_role_write[of "Suc (Suc j)" st s v n] len by simp
  have r: "dataRows st s ! j = take 4 (gridOf st s ! Suc j)"
    using len by (simp add: dataRows_def dataRowsOf_def)
  show "dataRows (values_update s (Dn_Dn (Suc (Suc j))) [v] st) n =
     ((dataRows st)(s := (dataRows st s)[j := writeCells (dataRows st s ! j) 3 [v]])) n"
    unfolding r
    by (simp add: dataRows_def g dataRowsOf_update[OF j'] take4_role_write)
qed

section \<open>Properties of the batch operations\<close>

lemma resolve_examples:
  "getSheetNameForRole (upd_newRole lostRole1) = None"
  "getSheetNameForRole (upd_newRole lostRole2) = None"
  "getSheetNameForRole (upd_newRole toMonarch) = Some MONARCH"
  "getSheetNameForRole (upd_newRole relabel) = Some MONADIANS"
  by (simp_all add: lostRole1_def lostRole2_def toMonarch_def relabel_def
      getSheetNameForRole_def toLowerCase_def toLowerCase_char_def)

lemma movesSheet_examples:
  "\<not> movesSheet lostRole1" "\<not> movesSheet lostRole2" "movesSheet toMonarch" "\<not> movesSheet relabel"
  by (simp_all add: movesSheet_def resolve_examples)
     (simp_all add: toMonarch_def relabel_def names_differ)

lemma gridOf_threeRemote:
  "gridOf threeRemote MONADIANS =
     [HEADER_ROW, [''ann'', ''u1'', ''0x1'', ''Monadian''], [''ben'', ''u2'', ''0x2'', ''Monadian''],
      [''cat'', ''u3'', ''0x3'', ''Monadian'']]"
  by (simp add: gridOf_def threeRemote_def)

lemma dataRows_threeRemote:
  "dataRows threeRemote MONADIANS =
     [[''ann'', ''u1'', ''0x1'', ''Monadian''], [''ben'', ''u2'', ''0x2'', ''Monadian''],
      [''cat'', ''u3'', ''0x3'', ''Monadian'']]"
  by (simp add: dataRows_def dataRowsOf_def gridOf_threeRemote)

lemma dataRows_threeRemote_others:
  "dataRows threeRemote MONARCH = []" "dataRows threeRemote MONALISTA = []"
  by (simp_all add: dataRows_def dataRowsOf_def gridOf_def threeRemote_def names_differ)

lemma allRowsBearing_threeRemote:
  "allRowsBearing ''u1'' threeRemote = [[''ann'', ''u1'', ''0x1'', ''Monadian'']]"
  by (simp add: allRowsBearing_def SHEET_NAMES_def rowsBearing_def dataRows_threeRemote
      dataRows_threeRemote_others bears_def cellAt_def)

lemma movedRow_toMonarch: "movedRow toMonarch = [''ann'', ''u1'', ''0x1'', ''Monarch'']"
  by (simp add: movedRow_def toMonarch_def roleOrEmpty_def)

lemma toMonarch_fields:
  "upd_sheetName toMonarch = MONADIANS" "upd_rowNumber toMonarch = 2"
  "upd_discordId toMonarch = ''u1''"
  by (simp_all add: toMonarch_def)

text \<open>
  Claim C5. \<^verbatim>\<open>batchUpdateRoles\<close> applies the transitions one after the other, in the
  order given, to the state that \<^verbatim>\<open>ensureSheetSetup\<close> leaves. A transition whose new
  role resolves to no tab deletes the row at its location and counts as updated; one
  whose role resolves to another tab deletes that row, performs an upsert with the new
  role and counts as moved; one whose role resolves to its own tab writes the role cell at
  its location and counts as updated. The result is the two tallies. Deleting a row
  removes the row at that number and shifts the later rows up; writing the role cell
  replaces that row by one with the same username, identifier and wallet cells and the new
  role. After a move the resolved tab holds the row of the transition, with its username,
  identifier, wallet and new role: appended after the data rows of the resolved tab when
  the deletion left no row bearing the identifier or left one in a third tab (which is
  deleted too), written over the first row bearing the identifier when the resolved tab
  has one. When the location is that of the only row bearing the identifier, the move
  takes that row out of its tab, appends the new row to the resolved tab, leaves every
  other data row as it was, and the resolved tab is then the only one with a row bearing
  the identifier.
\<close>

theorem batchUpdateRoles_transitions:
  "fst (batchUpdateRoles (Some us) st)
     = (length (filter (\<lambda>u. \<not> movesSheet u) us), length (filter movesSheet us))
   \<and> fst (batchUpdateRoles None st) = (0, 0)
   \<and> (us \<noteq> [] \<longrightarrow>
        snd (batchUpdateRoles (Some us) st) = fold applyUpdate us (ensureSheetSetup st))
   \<and> (getSheetNameForRole (upd_newRole u) = None \<longrightarrow>
        \<not> movesSheet u
        \<and> applyUpdate u st = deleteRowFromSheet (upd_sheetName u) (upd_rowNumber u) st)
   \<and> (getSheetNameForRole (upd_newRole u) = Some t \<and> t \<noteq> upd_sheetName u \<longrightarrow>
        movesSheet u
        \<and> applyUpdate u st =
            snd (upsertWallet
                   \<lparr>discordId = upd_discordId u, discordUsername = upd_discordUsername u,
                    wallet = upd_wallet u, role = upd_newRole u\<rparr>
                   (deleteRowFromSheet (upd_sheetName u) (upd_rowNumber u) st))
        \<and> movedRow u \<in> set (dataRows (applyUpdate u st) t)
        \<and> dataRows (applyUpdate u st) =
            (let st1 = deleteRowFromSheet (upd_sheetName u) (upd_rowNumber u) st;
                 did = upd_discordId u
             in case firstSheetWith did st1 of
                  None \<Rightarrow> (dataRows st1)(t := dataRows st1 t @ [movedRow u])
                | Some A \<Rightarrow>
                    if A = t
                    then (dataRows st1)
                           (t := (dataRows st1 t)[firstRowIndex did (dataRows st1 t) := movedRow u])
                    else (dataRows st1)
                           (A := take (firstRowIndex did (dataRows st1 A)) (dataRows st1 A)
                                 @ drop (Suc (firstRowIndex did (dataRows st1 A))) (dataRows st1 A),
                            t := dataRows st1 t @ [movedRow u])))
   \<and> (getSheetNameForRole (upd_newRole u) = Some t \<and> t \<noteq> upd_sheetName u
        \<and> upd_sheetName u \<in> set SHEET_NAMES \<and> upd_rowNumber u = j + 2
        \<and> j < length (dataRows st (upd_sheetName u))
        \<and> bears (upd_discordId u) (dataRows st (upd_sheetName u) ! j)
        \<and> length (allRowsBearing (upd_discordId u) st) \<le> 1 \<longrightarrow>
        dataRows (applyUpdate u st) =
          (dataRows st)
            (upd_sheetName u := take j (dataRows st (upd_sheetName u))
                                @ drop (Suc j) (dataRows st (upd_sheetName u)),
             t := dataRows st t @ [movedRow u])
        \<and> rowsBearing (upd_discordId u) (applyUpdate u st) t = [movedRow u]
        \<and> (\<forall>n\<in>set SHEET_NAMES. n \<noteq> t \<longrightarrow>
              rowsBearing (upd_discordId u) (applyUpdate u st) n = []))
   \<and> (getSheetNameForRole (upd_newRole u) = Some (upd_sheetName u) \<longrightarrow>
        \<not> movesSheet u
        \<and> applyUpdate u st =
            values_update (upd_sheetName u) (Dn_Dn (upd_rowNumber u))
              [roleOrEmpty (upd_newRole u)] st)
   \<and> gridOf (deleteRowFromSheet s k st) n
       = (if n = s \<and> 0 < k then take (k - 1) (gridOf st s) @ drop k (gridOf st s)
          else gridOf st n)
   \<and> (0 < k \<and> k \<le> length (gridOf st s) \<longrightarrow>
        gridOf (values_update s (Dn_Dn k) [v] st) n
          = (if n = s then (gridOf st s)[k - 1 := writeCells (gridOf st s ! (k - 1)) 3 [v]]
             else gridOf st n))
   \<and> cellOr (writeCells r 3 [v]) 0 = cellOr r 0
   \<and> cellOr (writeCells r 3 [v]) 1 = cellOr r 1
   \<and> cellOr (writeCells r 3 [v]) 2 = cellOr r 2
   \<and> cellOr (writeCells r 3 [v]) 3 = v"
proof (intro conjI impI)
  show "fst (batchUpdateRoles (Some us) st)
     = (length (filter (\<lambda>u. \<not> movesSheet u) us), length (filter movesSheet us))"
    by (rule batchUpdateRoles_counts)
  show "fst (batchUpdateRoles None st) = (0, 0)"
    by (simp add: batchUpdateRoles_def)
  show "gridOf (deleteRowFromSheet s k st) n
       = (if n = s \<and> 0 < k then take (k - 1) (gridOf st s) @ drop k (gridOf st s)
          else gridOf st n)"
    by (rule gridOf_delete_row)
  show "cellOr (writeCells r 3 [v]) 0 = cellOr r 0" "cellOr (writeCells r 3 [v]) 1 = cellOr r 1"
    "cellOr (writeCells r 3 [v]) 2 = cellOr r 2" "cellOr (writeCells r 3 [v]) 3 = v"
    by (rule cellOr_role_write)+
next
  assume "us \<noteq> []"
  then show "snd (batchUpdateRoles (Some us) st) = fold applyUpdate us (ensureSheetSetup st)"
    by (rule batchUpdateRoles_state)
next
  assume h: "getSheetNameForRole (upd_newRole u) = None"
  then show "\<not> movesSheet u" by (simp add: movesSheet_def)
  from h show "applyUpdate u st = deleteRowFromSheet (upd_sheetName u) (upd_rowNumber u) st"
    by (rule applyUpdate_delete)
next
  assume h: "getSheetNameForRole (upd_newRole u) = Some t \<and> t \<noteq> upd_sheetName u"
  then have t: "getSheetNameForRole (upd_newRole u) = Some t" and ne: "t \<noteq> upd_sheetName u"
    by simp_all
  from h show "movesSheet u" by (auto simp: movesSheet_def)
  from h show "applyUpdate u st =
            snd (upsertWallet
                   \<lparr>discordId = upd_discordId u, discordUsername = upd_discordUsername u,
                    wallet = upd_wallet u, role = upd_newRole u\<rparr>
                   (deleteRowFromSheet (upd_sheetName u) (upd_rowNumber u) st))"
    by (simp add: applyUpdate_move)
  from t ne show "movedRow u \<in> set (dataRows (applyUpdate u st) t)"
    by (rule applyUpdate_move_arrives)
  from applyUpdate_move_rows[OF t ne, of st]
  show "dataRows (applyUpdate u st) =
            (let st1 = deleteRowFromSheet (upd_sheetName u) (upd_rowNumber u) st;
                 did = upd_discordId u
             in case firstSheetWith did st1 of
                  None \<Rightarrow> (dataRows st1)(t := dataRows st1 t @ [movedRow u])
                | Some A \<Rightarrow>
                    if A = t
                    then (dataRows st1)
                           (t := (dataRows st1 t)[firstRowIndex did (dataRows st1 t) := movedRow u])
                    else (dataRows st1)
                           (A := take (firstRowIndex did (dataRows st1 A)) (dataRows st1 A)
                                 @ drop (Suc (firstRowIndex did (dataRows st1 A))) (dataRows st1 A),
                            t := dataRows st1 t @ [movedRow u]))"
    by (simp only: Let_def)
next
  assume h: "getSheetNameForRole (upd_newRole u) = Some t \<and> t \<noteq> upd_sheetName u
        \<and> upd_sheetName u \<in> set SHEET_NAMES \<and> upd_rowNumber u = j + 2
        \<and> j < length (dataRows st (upd_sheetName u))
        \<and> bears (upd_discordId u) (dataRows st (upd_sheetName u) ! j)
        \<and> length (allRowsBearing (upd_discordId u) st) \<le> 1"
  then have t: "getSheetNameForRole (upd_newRole u) = Some t" and ne: "t \<noteq> upd_sheetName u"
    and s: "upd_sheetName u \<in> set SHEET_NAMES" and rn: "upd_rowNumber u = j + 2"
    and j: "j < length (dataRows st (upd_sheetName u))"
    and b: "bears (upd_discordId u) (dataRows st (upd_sheetName u) ! j)"
    and one: "length (allRowsBearing (upd_discordId u) st) \<le> 1"
    by simp_all
  note eff = applyUpdate_move_single[OF t ne s rn j b one]
  show "dataRows (applyUpdate u st) =
          (dataRows st)
            (upd_sheetName u := take j (dataRows st (upd_sheetName u))
                                @ drop (Suc j) (dataRows st (upd_sheetName u)),
             t := dataRows st t @ [movedRow u])"
    by (rule eff(1))
  show "rowsBearing (upd_discordId u) (applyUpdate u st) t = [movedRow u]"
    by (rule eff(2))
  show "\<forall>n\<in>set SHEET_NAMES. n \<noteq> t \<longrightarrow>
              rowsBearing (upd_discordId u) (applyUpdate u st) n = []"
    by (rule eff(3))
next
  assume h: "getSheetNameForRole (upd_newRole u) = Some (upd_sheetName u)"
  then show "\<not> movesSheet u" by (simp add: movesSheet_def)
  from h show "applyUpdate u st =
            values_update (upd_sheetName u) (Dn_Dn (upd_rowNumber u))
              [roleOrEmpty (upd_newRole u)] st"
    by (rule applyUpdate_role)
next
  assume "0 < k \<and> k \<le> length (gridOf st s)"
  then show "gridOf (values_update s (Dn_Dn k) [v] st) n
          = (if n = s then (gridOf st s)[k - 1 := writeCells (gridOf st s ! (k - 1)) 3 [v]]
             else gridOf st n)"
    by (simp add: gridOf_role_write)
qed

theorem batchUpdateRoles_transitions_witness:
  "[lostRole1, toMonarch, relabel] \<noteq> []
   \<and> fst (batchUpdateRoles (Some [lostRole1, toMonarch, relabel]) threeRemote) = (2, 1)
   \<and> map (dataRows (snd (batchUpdateRoles (Some [lostRole1, toMonarch, relabel]) threeRemote)))
         SHEET_NAMES
       = [[[''cat'', ''u3'', ''0x3'', ''MONADIAN'']], [[''ann'', ''u1'', ''0x1'', ''Monarch'']], []]
   \<and> getSheetNameForRole (upd_newRole lostRole1) = None
   \<and> applyUpdate lostRole1 threeRemote = deleteRowFromSheet MONADIANS 2 threeRemote
   \<and> getSheetNameForRole (upd_newRole toMonarch) = Some MONARCH
   \<and> MONARCH \<noteq> upd_sheetName toMonarch
   \<and> movesSheet toMonarch
   \<and> upd_sheetName toMonarch \<in> set SHEET_NAMES
   \<and> upd_rowNumber toMonarch = 0 + 2
   \<and> 0 < length (dataRows threeRemote (upd_sheetName toMonarch))
   \<and> bears (upd_discordId toMonarch) (dataRows threeRemote (upd_sheetName toMonarch) ! 0)
   \<and> length (allRowsBearing (upd_discordId toMonarch) threeRemote) \<le> 1
   \<and> map (dataRows (applyUpdate toMonarch threeRemote)) SHEET_NAMES
       = [[[''ben'', ''u2'', ''0x2'', ''Monadian''], [''cat'', ''u3'', ''0x3'', ''Monadian'']],
          [[''ann'', ''u1'', ''0x1'', ''Monarch'']], []]
   \<and> map (rowsBearing ''u1'' (applyUpdate toMonarch threeRemote)) SHEET_NAMES
       = [[], [[''ann'', ''u1'', ''0x1'', ''Monarch'']], []]
   \<and> getSheetNameForRole (upd_newRole relabel) = Some (upd_sheetName relabel)
   \<and> applyUpdate relabel threeRemote = values_update MONADIANS (Dn_Dn 2) [''MONADIAN''] threeRemote
   \<and> (0::nat) < 2 \<and> 2 \<le> length (gridOf threeRemote MONADIANS)
   \<and> gridOf (values_update MONADIANS (Dn_Dn 2) [''MONADIAN''] threeRemote) MONADIANS
       = [HEADER_ROW, [''ann'', ''u1'', ''0x1'', ''MONADIAN''],
          [''ben'', ''u2'', ''0x2'', ''Monadian''], [''cat'', ''u3'', ''0x3'', ''Monadian'']]"
proof -
  let ?us = "[lostRole1, toMonarch, relabel]"
  let ?st0 = "ensureSheetSetup threeRemote"
  let ?sta = "applyUpdate lostRole1 ?st0"
  let ?stb = "applyUpdate toMonarch ?sta"
  let ?ann = "[''ann'', ''u1'', ''0x1'', ''Monarch'']"
  have a: "getSheetNameForRole (upd_newRole toMonarch) = Some MONARCH \<and> MONARCH \<noteq> upd_sheetName toMonarch"
    by (simp add: resolve_examples) (simp add: toMonarch_def names_differ)
  have b: "getSheetNameForRole (upd_newRole relabel) = Some (upd_sheetName relabel)"
    by (simp add: resolve_examples) (simp add: relabel_def)
  have c: "(0::nat) < 2 \<and> 2 \<le> length (gridOf threeRemote MONADIANS)"
    by (simp add: gridOf_threeRemote)
  have w: "writeCells [''ann'', ''u1'', ''0x1'', ''Monadian''] 3 [''MONADIAN'']
      = [''ann'', ''u1'', ''0x1'', ''MONADIAN'']"
    by (simp add: writeCells_def)
  have one: "upd_sheetName toMonarch \<in> set SHEET_NAMES \<and> upd_rowNumber toMonarch = 0 + 2
      \<and> 0 < length (dataRows threeRemote (upd_sheetName toMonarch))
      \<and> bears (upd_discordId toMonarch) (dataRows threeRemote (upd_sheetName toMonarch) ! 0)
      \<and> length (allRowsBearing (upd_discordId toMonarch) threeRemote) \<le> 1"
    by (simp add: toMonarch_fields SHEET_NAMES_def dataRows_threeRemote allRowsBearing_threeRemote
        bears_u1)
  note third = conjunct2[THEN conjunct2, THEN conjunct1]
  note fourth = conjunct2[THEN conjunct2, THEN conjunct2, THEN conjunct1]
  note fifth = conjunct2[THEN conjunct2, THEN conjunct2, THEN conjunct2, THEN conjunct1]
  note sixth = conjunct2[THEN conjunct2, THEN conjunct2, THEN conjunct2, THEN conjunct2,
      THEN conjunct1]
  note seventh = conjunct2[THEN conjunct2, THEN conjunct2, THEN conjunct2, THEN conjunct2,
      THEN conjunct2, THEN conjunct1]
  txt \<open>The move alone, from the state of the example.\<close>
  have h: "getSheetNameForRole (upd_newRole toMonarch) = Some MONARCH
      \<and> MONARCH \<noteq> upd_sheetName toMonarch
      \<and> upd_sheetName toMonarch \<in> set SHEET_NAMES \<and> upd_rowNumber toMonarch = 0 + 2
      \<and> 0 < length (dataRows threeRemote (upd_sheetName toMonarch))
      \<and> bears (upd_discordId toMonarch) (dataRows threeRemote (upd_sheetName toMonarch) ! 0)
      \<and> length (allRowsBearing (upd_discordId toMonarch) threeRemote) \<le> 1"
    using a one by (simp only: simp_thms)
  from batchUpdateRoles_transitions[of "[lostRole1]" threeRemote toMonarch MONARCH 0,
      THEN sixth, THEN mp, OF h]
  have mv: "dataRows (applyUpdate toMonarch threeRemote) =
        (dataRows threeRemote)
          (MONADIANS := [[''ben'', ''u2'', ''0x2'', ''Monadian''], [''cat'', ''u3'', ''0x3'', ''Monadian'']],
           MONARCH := [?ann])"
    and mvr: "rowsBearing ''u1'' (applyUpdate toMonarch threeRemote) MONARCH = [?ann]"
    and mvn: "\<forall>n\<in>set SHEET_NAMES. n \<noteq> MONARCH \<longrightarrow>
        rowsBearing ''u1'' (applyUpdate toMonarch threeRemote) n = []"
    by (simp_all add: toMonarch_fields movedRow_toMonarch dataRows_threeRemote
        dataRows_threeRemote_others)
  have mv_rows: "map (dataRows (applyUpdate toMonarch threeRemote)) SHEET_NAMES
       = [[[''ben'', ''u2'', ''0x2'', ''Monadian''], [''cat'', ''u3'', ''0x3'', ''Monadian'']],
          [?ann], []]"
    by (simp add: mv SHEET_NAMES_def names_differ dataRows_threeRemote_others)
  have mv_bearing: "map (rowsBearing ''u1'' (applyUpdate toMonarch threeRemote)) SHEET_NAMES
       = [[], [?ann], []]"
    using mvn by (simp add: mvr SHEET_NAMES_def names_differ)
  txt \<open>The three transitions one after the other.\<close>
  have ne: "?us \<noteq> []" by simp
  from batchUpdateRoles_transitions[of ?us threeRemote lostRole1 MONARCH 0, THEN third, THEN mp, OF ne]
  have run: "snd (batchUpdateRoles (Some ?us) threeRemote) = applyUpdate relabel ?stb"
    by simp
  from batchUpdateRoles_transitions[of ?us ?st0 lostRole1 MONARCH 0, THEN fourth, THEN mp,
      OF resolve_examples(1), THEN conjunct2]
  have "?sta = deleteRowFromSheet MONADIANS (Suc (Suc 0)) ?st0"
    by (simp add: lostRole1_def numeral_2_eq_2)
  then have ra: "dataRows ?sta =
      (dataRows threeRemote)
        (MONADIANS := [[''ben'', ''u2'', ''0x2'', ''Monadian''], [''cat'', ''u3'', ''0x3'', ''Monadian'']])"
    by (simp add: dataRows_deleteRowFromSheet dataRows_threeRemote)
  have r1: "dataRows (deleteRowFromSheet MONADIANS 2 ?sta) =
      (dataRows threeRemote)(MONADIANS := [[''cat'', ''u3'', ''0x3'', ''Monadian'']])"
    by (simp add: numeral_2_eq_2 dataRows_deleteRowFromSheet ra)
  have none: "firstSheetWith ''u1'' (deleteRowFromSheet MONADIANS 2 ?sta) = None"
    by (simp add: firstSheetWith_def SHEET_NAMES_def rowsBearing_def r1 names_differ
        dataRows_threeRemote_others bears_def cellAt_def)
  from batchUpdateRoles_transitions[of ?us ?sta toMonarch MONARCH 0, THEN fifth, THEN mp, OF a,
      THEN conjunct2, THEN conjunct2, THEN conjunct2]
  have rb: "dataRows ?stb =
      (dataRows threeRemote)(MONADIANS := [[''cat'', ''u3'', ''0x3'', ''Monadian'']], MONARCH := [?ann])"
    by (simp add: toMonarch_fields none r1 movedRow_toMonarch names_differ
        dataRows_threeRemote_others)
  from batchUpdateRoles_transitions[of ?us ?stb relabel MONARCH 0, THEN seventh, THEN mp, OF b,
      THEN conjunct2]
  have "applyUpdate relabel ?stb = values_update MONADIANS (Dn_Dn (Suc (Suc 0))) [''MONADIAN''] ?stb"
    by (simp add: relabel_def roleOrEmpty_def numeral_2_eq_2)
  then have rc: "dataRows (applyUpdate relabel ?stb) =
      (dataRows ?stb)(MONADIANS := [[''cat'', ''u3'', ''0x3'', ''MONADIAN'']])"
    by (simp add: dataRows_role_write rb names_differ writeCells_def)
  have run_rows: "map (dataRows (snd (batchUpdateRoles (Some ?us) threeRemote))) SHEET_NAMES
       = [[[''cat'', ''u3'', ''0x3'', ''MONADIAN'']], [?ann], []]"
    by (simp add: run rc rb SHEET_NAMES_def names_differ dataRows_threeRemote_others)
  from batchUpdateRoles_transitions[of ?us threeRemote lostRole1
      MONARCH 0 MONADIANS 2 MONADIANS "''MONADIAN''"]
    batchUpdateRoles_transitions[of "[lostRole1]" threeRemote toMonarch MONARCH 0]
    batchUpdateRoles_transitions[of "[lostRole1]" threeRemote relabel MONARCH 0]
    a b c
  have rest: "fst (batchUpdateRoles (Some ?us) threeRemote) = (2, 1)
   \<and> getSheetNameForRole (upd_newRole lostRole1) = None
   \<and> applyUpdate lostRole1 threeRemote = deleteRowFromSheet MONADIANS 2 threeRemote
   \<and> movesSheet toMonarch
   \<and> applyUpdate relabel threeRemote = values_update MONADIANS (Dn_Dn 2) [''MONADIAN''] threeRemote
   \<and> gridOf (values_update MONADIANS (Dn_Dn 2) [''MONADIAN''] threeRemote) MONADIANS
       = [HEADER_ROW, [''ann'', ''u1'', ''0x1'', ''MONADIAN''],
          [''ben'', ''u2'', ''0x2'', ''Monadian''], [''cat'', ''u3'', ''0x3'', ''Monadian'']]"
    by (simp add: resolve_examples movesSheet_examples gridOf_threeRemote w)
       (simp add: lostRole1_def relabel_def roleOrEmpty_def)
  from rest run_rows mv_rows mv_bearing a b c one show ?thesis
    by (simp only: simp_thms list.distinct)
qed

subsection \<open>The order of the deletions\<close>

lemma deletions_append [simp]: "deletions (xs @ ys) = deletions xs @ deletions ys"
  by (simp add: deletions_def)

lemma deletions_Cons [simp]: "deletions (c # cs) = deletedRow c @ deletions cs"
  by (simp add: deletions_def)

lemma deletions_Nil [simp]: "deletions [] = []"
  by (simp add: deletions_def)

lemma deletions_headerCalls [simp]: "deletions (headerCalls st n) = []"
  by (simp add: headerCalls_def)

lemma deletions_setupCalls [simp]: "deletions (setupCalls st) = []"
proof -
  have "deletions (concat (map (headerCalls st) ns)) = []" for ns
    by (induction ns) simp_all
  then show ?thesis by (simp add: setupCalls_def)
qed

text \<open>
  Claim C2, at a failing input. Two users at the rows 2 and 3 of Monadians lost their
  role. \<^verbatim>\<open>batchUpdateRoles\<close> deletes row 2 first and row 3 second, in ascending
  order; the second deletion removes the row that was at row 4, the row of user \<open>u3\<close>,
  and the row of user \<open>u2\<close> stays.
\<close>

theorem batchUpdateRoles_ascending_deletes:
  "dataRows threeRemote MONADIANS
     = [[''ann'', ''u1'', ''0x1'', ''Monadian''], [''ben'', ''u2'', ''0x2'', ''Monadian''],
        [''cat'', ''u3'', ''0x3'', ''Monadian'']]
   \<and> deletions (newCalls threeRemote (snd (batchUpdateRoles (Some [lostRole1, lostRole2]) threeRemote)))
       = [(MONADIANS, 2), (MONADIANS, 3)]
   \<and> dataRows (snd (batchUpdateRoles (Some [lostRole1, lostRole2]) threeRemote)) MONADIANS
       = [[''ben'', ''u2'', ''0x2'', ''Monadian'']]"
proof -
  have M: "MONADIANS \<in> set SHEET_NAMES" by (simp add: SHEET_NAMES_def)
  have st: "snd (batchUpdateRoles (Some [lostRole1, lostRole2]) threeRemote)
      = deleteRowFromSheet MONADIANS (Suc (Suc (Suc 0)))
          (deleteRowFromSheet MONADIANS (Suc (Suc 0)) (ensureSheetSetup threeRemote))"
    by (simp add: batchUpdateRoles_state applyUpdate_delete resolve_examples)
       (simp add: lostRole1_def lostRole2_def numeral_2_eq_2 numeral_3_eq_3)
  have c0: "calls threeRemote = []" by (simp add: threeRemote_def)
  show ?thesis
    unfolding st
    using M
    by (simp add: dataRows_threeRemote dataRows_deleteRowFromSheet newCalls_def c0
        calls_deleteRowFromSheet calls_ensureSheetSetup numeral_2_eq_2 numeral_3_eq_3)
qed

subsection \<open>Grouping the items by tab\<close>

lemma groupItem_invalid: "validPair item = [] \<Longrightarrow> groupItem item b = Inr b"
  by (auto simp: validPair_def groupItem_def split: option.splits if_splits)

lemma groupItem_valid:
  "validPair item = [(s, n)] \<Longrightarrow>
   groupItem item b =
     (case map_of b s of
        Some ns \<Rightarrow> Inr (pushRow s n b)
      | None \<Rightarrow> (if s \<in> set Object_prototype_keys then Inl TypeError else Inr (b @ [(s, [n])])))"
  by (auto simp: validPair_def groupItem_def split: option.splits if_splits)

lemma validPair_cases:
  obtains "validPair item = []" | s n where "validPair item = [(s, n)]" "2 \<le> n"
proof (cases "del_sheetName item")
  case None
  then have "validPair item = []" by (simp add: validPair_def)
  then show ?thesis by (rule that(1))
next
  case s: (Some s)
  show ?thesis
  proof (cases "del_rowNumber item")
    case None
    with s have "validPair item = []" by (simp add: validPair_def)
    then show ?thesis by (rule that(1))
  next
    case n: (Some n)
    show ?thesis
    proof (cases "s = [] \<or> n < 2")
      case True
      with s n have "validPair item = []" by (simp add: validPair_def)
      then show ?thesis by (rule that(1))
    next
      case False
      with s n have "validPair item = [(s, n)]" "2 \<le> n" by (simp_all add: validPair_def)
      then show ?thesis by (rule that(2))
    qed
  qed
qed

lemma keys_pushRow [simp]: "map fst (pushRow s n b) = map fst b"
  by (induction b) auto

lemma map_of_pushRow:
  "map_of b s = Some ns \<Longrightarrow> map_of (pushRow s n b) = (map_of b)(s \<mapsto> ns @ [n])"
  by (induction b) (auto simp: fun_upd_twist)

lemma stored_pushRow:
  "map_of b s = Some ns \<Longrightarrow>
   stored (pushRow s n b) t = (if t = s then stored b s @ [n] else stored b t)"
  by (simp add: stored_def map_of_pushRow)

lemma stored_append_new:
  "map_of b s = None \<Longrightarrow>
   stored (b @ [(s, [n])]) t = (if t = s then stored b s @ [n] else stored b t)"
  by (auto simp: stored_def map_add_def split: option.splits)

lemma rowsFor_append [simp]: "rowsFor s (ps @ qs) = rowsFor s ps @ rowsFor s qs"
  by (simp add: rowsFor_def)

lemma rowsFor_Nil [simp]: "rowsFor s [] = []"
  by (simp add: rowsFor_def)

lemma rowsFor_single: "rowsFor t [(s, n)] = (if t = s then [n] else [])"
  by (auto simp: rowsFor_def)

lemma rowsFor_Cons:
  "rowsFor t ((s, n) # ps) = (if t = s then n # rowsFor t ps else rowsFor t ps)"
  by (auto simp: rowsFor_def)

lemma validPairs_Cons [simp]: "validPairs (item # items) = validPair item @ validPairs items"
  by (simp add: validPairs_def)

lemma validPairs_Nil [simp]: "validPairs [] = []"
  by (simp add: validPairs_def)

lemma groupItems_ordinary:
  assumes "list_all (\<lambda>p. fst p \<notin> set Object_prototype_keys) (validPairs items)"
    and "distinct (map fst b0)"
  shows "\<exists>b. groupItems items b0 = Inr b \<and> distinct (map fst b)
           \<and> (\<forall>t. stored b t = stored b0 t @ rowsFor t (validPairs items))
           \<and> set (map fst b) = set (map fst b0) \<union> fst ` set (validPairs items)"
  using assms
proof (induction items arbitrary: b0)
  case Nil
  then show ?case by simp
next
  case (Cons item items)
  show ?case
  proof (cases item rule: validPair_cases)
    case 1
    with Cons.prems have "list_all (\<lambda>p. fst p \<notin> set Object_prototype_keys) (validPairs items)"
      by simp
    from Cons.IH[OF this Cons.prems(2)] 1 show ?thesis
      by (simp add: groupItem_invalid)
  next
    case (2 s n)
    with Cons.prems have ord: "s \<notin> set Object_prototype_keys"
      and rest: "list_all (\<lambda>p. fst p \<notin> set Object_prototype_keys) (validPairs items)"
      by simp_all
    show ?thesis
    proof (cases "map_of b0 s")
      case None
      then have new: "s \<notin> set (map fst b0)" by (simp add: map_of_eq_None_iff)
      with Cons.prems(2) have d: "distinct (map fst (b0 @ [(s, [n])]))" by simp
      from Cons.IH[OF rest d] obtain b where
        b: "groupItems items (b0 @ [(s, [n])]) = Inr b" "distinct (map fst b)"
        "\<forall>t. stored b t = stored (b0 @ [(s, [n])]) t @ rowsFor t (validPairs items)"
        "set (map fst b) = set (map fst (b0 @ [(s, [n])])) \<union> fst ` set (validPairs items)"
        by blast
      have "groupItems (item # items) b0 = Inr b"
        using b(1) ord None by (simp add: groupItem_valid[OF 2(1)])
      moreover have "\<forall>t. stored b t = stored b0 t @ rowsFor t (validPairs (item # items))"
        using b(3) by (simp add: 2(1) stored_append_new[OF None] rowsFor_Cons)
      moreover have "set (map fst b) = set (map fst b0) \<union> fst ` set (validPairs (item # items))"
        using b(4) by (auto simp: 2(1))
      ultimately show ?thesis using b(2) by blast
    next
      case (Some ns)
      then have old: "s \<in> set (map fst b0)"
        by (metis map_of_eq_None_iff option.distinct(1) set_map)
      have d: "distinct (map fst (pushRow s n b0))" using Cons.prems(2) by simp
      from Cons.IH[OF rest d] obtain b where
        b: "groupItems items (pushRow s n b0) = Inr b" "distinct (map fst b)"
        "\<forall>t. stored b t = stored (pushRow s n b0) t @ rowsFor t (validPairs items)"
        "set (map fst b) = set (map fst (pushRow s n b0)) \<union> fst ` set (validPairs items)"
        by blast
      have "groupItems (item # items) b0 = Inr b"
        using b(1) Some by (simp add: groupItem_valid[OF 2(1)])
      moreover have "\<forall>t. stored b t = stored b0 t @ rowsFor t (validPairs (item # items))"
        using b(3) by (simp add: 2(1) stored_pushRow[OF Some] rowsFor_Cons)
      moreover have "set (map fst b) = set (map fst b0) \<union> fst ` set (validPairs (item # items))"
        using b(4) old by (auto simp: 2(1))
      ultimately show ?thesis using b(2) by blast
    qed
  qed
qed

lemma mset_Object_entries [simp]: "mset (Object_entries b) = mset b"
  by (simp add: Object_entries_def)

lemma set_Object_entries [simp]: "set (Object_entries b) = set b"
  using mset_Object_entries by (rule mset_eq_setD)

lemma keys_Object_entries: "mset (map fst (Object_entries b)) = mset (map fst b)"
  unfolding mset_map by simp

lemma distinct_Object_entries:
  "distinct (map fst (Object_entries b)) \<longleftrightarrow> distinct (map fst b)"
  using keys_Object_entries by (rule mset_eq_imp_distinct_iff)

lemma stored_distinct:
  "distinct (map fst b) \<Longrightarrow> (s, ns) \<in> set b \<Longrightarrow> stored b s = ns"
  by (simp add: stored_def)


subsection \<open>The deletion loop\<close>

lemma sortedDescending_strict: "sorted_wrt (\<lambda>a b. b < a) (sortedDescending ns)"
proof -
  have "sorted_wrt (<) (sort (remdups ns))"
    by (simp add: strict_sorted_iff)
  then show ?thesis
    unfolding sortedDescending_def by (simp add: sorted_wrt_rev)
qed

lemma set_sortedDescending [simp]: "set (sortedDescending ns) = set ns"
  by (simp add: sortedDescending_def)

lemma length_sortedDescending: "length (sortedDescending ns) = card (set ns)"
  by (simp add: sortedDescending_def length_remdups_card_conv)

lemma sortedDescending_Nil [simp]: "sortedDescending [] = []"
  by (simp add: sortedDescending_def)

lemma rows_fold_count:
  "fold (\<lambda>rowNumber acc'. case acc' of
           (deleted, st) \<Rightarrow> (Suc deleted, deleteRowFromSheet s (nat rowNumber) st)) rs (d, st)
     = (d + length rs, fold (\<lambda>r. deleteRowFromSheet s (nat r)) rs st)"
  by (induction rs arbitrary: d st) simp_all

lemma deleteSheetRows_unfold:
  "deleteSheetRows (s, ns) (d, st) =
     (d + card (set ns), fold (\<lambda>r. deleteRowFromSheet s (nat r)) (sortedDescending ns) st)"
  by (simp add: deleteSheetRows_def rows_fold_count length_sortedDescending)

lemma exists_fold_rows [simp]:
  "sheets (fold (\<lambda>r. deleteRowFromSheet s (nat r)) rs st) n = None \<longleftrightarrow> sheets st n = None"
  by (induction rs arbitrary: st) simp_all

lemma calls_fold_rows:
  "\<exists>cs. calls (fold (\<lambda>r. deleteRowFromSheet s (nat r)) rs st) = calls st @ cs
      \<and> deletions cs = (if sheets st s = None then [] else map (\<lambda>r. (s, nat r)) rs)"
proof (induction rs arbitrary: st)
  case Nil
  then show ?case by simp
next
  case (Cons r rs)
  from Cons.IH[of "deleteRowFromSheet s (nat r) st"] obtain cs where
    cs: "calls (fold (\<lambda>r. deleteRowFromSheet s (nat r)) rs (deleteRowFromSheet s (nat r) st))
          = calls (deleteRowFromSheet s (nat r) st) @ cs"
      "deletions cs = (if sheets st s = None then [] else map (\<lambda>r. (s, nat r)) rs)"
    by auto
  let ?c = "Spreadsheets_get
      # (if sheets st s = None then [] else [BatchUpdate_deleteDimension s (nat r - 1) (nat r)])"
  have "calls (fold (\<lambda>r. deleteRowFromSheet s (nat r)) (r # rs) st) = calls st @ (?c @ cs)"
    using cs(1) by (simp add: calls_deleteRowFromSheet)
  moreover have "deletions (?c @ cs) = (if sheets st s = None then [] else map (\<lambda>r. (s, nat r)) (r # rs))"
    using cs(2) by simp
  ultimately show ?case by blast
qed

text \<open>The deletions that the loop over the entries issues, tab by tab.\<close>

lemma fold_deleteSheetRows:
  "\<exists>st' cs. fold deleteSheetRows es (d, st) = (d + sum_list (map (\<lambda>e. card (set (snd e))) es), st')
      \<and> calls st' = calls st @ cs
      \<and> deletions cs =
          concat (map (\<lambda>e. if sheets st (fst e) = None then []
                            else map (\<lambda>r. (fst e, nat r)) (sortedDescending (snd e))) es)"
proof (induction es arbitrary: d st)
  case Nil
  then show ?case by simp
next
  case (Cons e es)
  obtain s ns where e: "e = (s, ns)" by (cases e)
  let ?st1 = "fold (\<lambda>r. deleteRowFromSheet s (nat r)) (sortedDescending ns) st"
  from calls_fold_rows[of s "sortedDescending ns" st] obtain c1 where
    c1: "calls ?st1 = calls st @ c1"
      "deletions c1 = (if sheets st s = None then [] else map (\<lambda>r. (s, nat r)) (sortedDescending ns))"
    by blast
  from Cons.IH[of "d + card (set ns)" ?st1] obtain st' cs where
    r: "fold deleteSheetRows es (d + card (set ns), ?st1)
          = (d + card (set ns) + sum_list (map (\<lambda>e. card (set (snd e))) es), st')"
      "calls st' = calls ?st1 @ cs"
      "deletions cs =
          concat (map (\<lambda>e. if sheets ?st1 (fst e) = None then []
                            else map (\<lambda>r. (fst e, nat r)) (sortedDescending (snd e))) es)"
    by blast
  have "fold deleteSheetRows (e # es) (d, st)
      = (d + sum_list (map (\<lambda>e. card (set (snd e))) (e # es)), st')"
    using r(1) by (simp add: e deleteSheetRows_unfold)
  moreover have "calls st' = calls st @ (c1 @ cs)"
    using r(2) c1(1) by simp
  moreover have "deletions (c1 @ cs) =
      concat (map (\<lambda>e. if sheets st (fst e) = None then []
                        else map (\<lambda>r. (fst e, nat r)) (sortedDescending (snd e))) (e # es))"
    using r(3) c1(2) by (simp add: e)
  ultimately show ?case by blast
qed

lemma deletionsIn_entries:
  assumes "distinct (map fst es)"
  shows "deletionsIn t
      (concat (map (\<lambda>e. if ex (fst e) then map (\<lambda>r. (fst e, nat r)) (sortedDescending (snd e))
                        else []) es))
    = (if ex t then map nat (sortedDescending (stored es t)) else [])"
  using assms
proof (induction es)
  case Nil
  then show ?case by (simp add: deletionsIn_def stored_def)
next
  case (Cons e es)
  obtain s ns where e: "e = (s, ns)" by (cases e)
  from Cons.prems have d: "distinct (map fst es)" and new: "s \<notin> fst ` set es"
    by (simp_all add: e)
  note ih = Cons.IH[OF d]
  have app: "deletionsIn t (xs @ ys) = deletionsIn t xs @ deletionsIn t ys" for xs ys
    by (simp add: deletionsIn_def)
  have own: "deletionsIn t (map (\<lambda>r. (s, nat r)) rs) = (if t = s then map nat rs else [])" for rs
    by (induction rs) (auto simp: deletionsIn_def)
  show ?case
  proof (cases "t = s")
    case True
    with new have "map_of es t = None" by (simp add: map_of_eq_None_iff)
    then have "stored es t = []" by (simp add: stored_def)
    with ih True show ?thesis
      by (simp add: e app own stored_def deletionsIn_def)
  next
    case False
    with ih show ?thesis
      by (simp add: e app own stored_def deletionsIn_def)
  qed
qed


subsection \<open>The count and the order of a batch deletion\<close>

lemma in_rowsFor: "n \<in> set (rowsFor k ps) \<longleftrightarrow> (k, n) \<in> set ps"
  by (induction ps) (auto simp: rowsFor_Cons split: if_splits)

lemma distinct_keys_distinct: "distinct (map fst b) \<Longrightarrow> distinct b"
  by (simp add: distinct_map)

lemma grouped_count:
  assumes d: "distinct (map fst b)"
    and st: "\<forall>t. stored b t = rowsFor t ps"
    and keys: "set (map fst b) = fst ` set ps"
  shows "sum_list (map (\<lambda>e. card (set (snd e))) b) = card (set ps)"
proof -
  have eq: "set ps = (\<Union>e\<in>set b. Pair (fst e) ` set (snd e))"
  proof (rule set_eqI)
    fix p :: "string \<times> int"
    obtain k n where p: "p = (k, n)" by (cases p)
    show "p \<in> set ps \<longleftrightarrow> p \<in> (\<Union>e\<in>set b. Pair (fst e) ` set (snd e))"
    proof
      assume "p \<in> set ps"
      then have kn: "(k, n) \<in> set ps" by (simp add: p)
      then have "k \<in> set (map fst b)" unfolding keys by force
      then obtain ns where e: "(k, ns) \<in> set b" by auto
      with d have "stored b k = ns" by (rule stored_distinct)
      with st kn have "n \<in> set ns" by (simp add: in_rowsFor[symmetric])
      with e show "p \<in> (\<Union>e\<in>set b. Pair (fst e) ` set (snd e))"
        unfolding p by force
    next
      assume "p \<in> (\<Union>e\<in>set b. Pair (fst e) ` set (snd e))"
      then obtain ns where e: "(k, ns) \<in> set b" and n: "n \<in> set ns"
        unfolding p by auto
      from d e have "stored b k = ns" by (rule stored_distinct)
      with st n have "n \<in> set (rowsFor k ps)" by simp
      then show "p \<in> set ps" by (simp add: p in_rowsFor)
    qed
  qed
  have inj: "inj_on fst (set b)" using d by (simp add: distinct_map)
  have "card (\<Union>e\<in>set b. Pair (fst e) ` set (snd e))
      = (\<Sum>e\<in>set b. card (Pair (fst e) ` set (snd e)))"
  proof (rule card_UN_disjoint)
    show "finite (set b)" by simp
    show "\<forall>e\<in>set b. finite (Pair (fst e) ` set (snd e))" by simp
    show "\<forall>e\<in>set b. \<forall>e'\<in>set b. e \<noteq> e' \<longrightarrow>
        Pair (fst e) ` set (snd e) \<inter> Pair (fst e') ` set (snd e') = {}"
    proof (intro ballI impI)
      fix e e' assume "e \<in> set b" "e' \<in> set b" "e \<noteq> e'"
      with inj have "fst e \<noteq> fst e'" by (auto dest: inj_onD)
      then show "Pair (fst e) ` set (snd e) \<inter> Pair (fst e') ` set (snd e') = {}" by auto
    qed
  qed
  also have "\<dots> = (\<Sum>e\<in>set b. card (set (snd e)))"
    by (rule sum.cong[OF refl]) (simp add: card_image inj_on_def)
  also have "\<dots> = sum_list (map (\<lambda>e. card (set (snd e))) b)"
    using distinct_keys_distinct[OF d] by (simp add: sum_list_distinct_conv_sum_set)
  finally show ?thesis by (simp add: eq)
qed

lemma sum_list_Object_entries:
  fixes f :: "string \<times> int list \<Rightarrow> nat"
  shows "sum_list (map f (Object_entries b)) = sum_list (map f b)"
proof -
  have "mset (map f (Object_entries b)) = mset (map f b)"
    unfolding mset_map by simp
  then have "sum_mset (mset (map f (Object_entries b))) = sum_mset (mset (map f b))"
    by (rule arg_cong)
  then show ?thesis by (simp only: sum_mset_sum_list)
qed

lemma stored_Object_entries:
  assumes "distinct (map fst b)"
  shows "stored (Object_entries b) t = stored b t"
proof -
  have "distinct (map fst (Object_entries b))"
    using assms by (simp add: distinct_Object_entries)
  then have "map_of (Object_entries b) = map_of b"
    using assms by (simp add: map_of_inject_set)
  then show ?thesis by (simp add: stored_def)
qed

lemma batchDeleteRows_ordinary:
  assumes "list_all (\<lambda>p. fst p \<notin> set Object_prototype_keys) (validPairs items)"
  shows "\<exists>st' cs. batchDeleteRows (Some items) st = Inr (card (set (validPairs items)), st')
    \<and> calls st' = calls (ensureSheetSetup st) @ cs
    \<and> (\<forall>t. deletionsIn t (deletions cs) =
          (if sheets (ensureSheetSetup st) t \<noteq> None
           then map nat (sortedDescending (rowsFor t (validPairs items))) else []))"
proof (cases "items = []")
  case True
  then have "batchDeleteRows (Some items) st = Inr (card (set (validPairs items)), ensureSheetSetup st)"
    by (simp add: batchDeleteRows_def)
  moreover have "calls (ensureSheetSetup st) = calls (ensureSheetSetup st) @ []" by simp
  moreover have "\<forall>t. deletionsIn t (deletions []) =
          (if sheets (ensureSheetSetup st) t \<noteq> None
           then map nat (sortedDescending (rowsFor t (validPairs items))) else [])"
    using True by (simp add: deletionsIn_def)
  ultimately show ?thesis by blast
next
  case False
  let ?st1 = "ensureSheetSetup st"
  from groupItems_ordinary[OF assms, of "[]"] obtain b where
    b: "groupItems items [] = Inr b" "distinct (map fst b)"
      "\<forall>t. stored b t = rowsFor t (validPairs items)"
      "set (map fst b) = fst ` set (validPairs items)"
    by (auto simp: stored_def)
  from fold_deleteSheetRows[of "Object_entries b" 0 ?st1] obtain st' cs where
    r: "fold deleteSheetRows (Object_entries b) (0, ?st1)
          = (0 + sum_list (map (\<lambda>e. card (set (snd e))) (Object_entries b)), st')"
      "calls st' = calls ?st1 @ cs"
      "deletions cs =
          concat (map (\<lambda>e. if sheets ?st1 (fst e) = None then []
                            else map (\<lambda>r. (fst e, nat r)) (sortedDescending (snd e)))
                   (Object_entries b))"
    by blast
  have count: "sum_list (map (\<lambda>e. card (set (snd e))) (Object_entries b)) = card (set (validPairs items))"
    unfolding sum_list_Object_entries using b(2,3,4) by (rule grouped_count)
  have d: "distinct (map fst (Object_entries b))"
    using b(2) by (simp add: distinct_Object_entries)
  have flip: "(\<lambda>e. if sheets ?st1 (fst e) = None then []
                   else map (\<lambda>r. (fst e, nat r)) (sortedDescending (snd e)))
      = (\<lambda>e. if sheets ?st1 (fst e) \<noteq> None then map (\<lambda>r. (fst e, nat r)) (sortedDescending (snd e))
              else [])"
    by (rule ext) simp
  have per: "deletionsIn t (deletions cs) =
          (if sheets ?st1 t \<noteq> None
           then map nat (sortedDescending (rowsFor t (validPairs items))) else [])" for t
    unfolding r(3) flip
    using deletionsIn_entries[OF d, of t "\<lambda>k. sheets ?st1 k \<noteq> None"]
    by (simp add: stored_Object_entries[OF b(2)] b(3))
  have "batchDeleteRows (Some items) st = Inr (card (set (validPairs items)), st')"
    using False b(1) r(1) count by (simp add: batchDeleteRows_def)
  with r(2) per show ?thesis by blast
qed

lemma rows_at_least_2: "list_all (\<lambda>p. 2 \<le> snd p) (validPairs items)"
proof (induction items)
  case Nil
  then show ?case by simp
next
  case (Cons item items)
  then show ?case
    by (cases item rule: validPair_cases) simp_all
qed


lemma rowsFor_at_least_2: "r \<in> set (rowsFor t (validPairs items)) \<Longrightarrow> 2 \<le> r"
  using rows_at_least_2[of items] by (auto simp: in_rowsFor list_all_iff)

lemma descending_nat:
  assumes "sorted_wrt (\<lambda>a b. b < a) rs" "\<forall>r\<in>set rs. (0::int) \<le> r"
  shows "sorted_wrt (\<lambda>a b. b < a) (map nat rs)"
  unfolding sorted_wrt_map
  using assms(1)
proof (rule sorted_wrt_mono_rel[rotated])
  fix a b assume "a \<in> set rs" "b \<in> set rs" "b < a"
  with assms(2) show "nat b < nat a" by auto
qed

lemma exists_after_setup:
  "sheets (ensureSheetSetup st) t \<noteq> None \<longleftrightarrow> t \<in> set SHEET_NAMES \<or> sheets st t \<noteq> None"
  by (simp add: sheets_ensureSheetSetup)

text \<open>
  \<^verbatim>\<open>batchDeleteRows\<close> on items whose sheet names are not inherited property names:
  the count returned is the number of distinct valid pairs, and in every tab that exists
  the rows deleted are the distinct valid row numbers given for that tab, each once, in
  descending order, none of them the header row.
\<close>

lemma batchDeleteRows_valid_items:
  assumes "list_all (\<lambda>p. fst p \<notin> set Object_prototype_keys) (validPairs items)"
  shows "\<exists>st'. batchDeleteRows (Some items) st = Inr (card (set (validPairs items)), st')
    \<and> (\<forall>t. deletionsIn t (deletions (newCalls st st')) =
            (if t \<in> set SHEET_NAMES \<or> sheets st t \<noteq> None
             then map nat (sortedDescending (rowsFor t (validPairs items))) else [])
          \<and> sorted_wrt (\<lambda>a b. b < a) (deletionsIn t (deletions (newCalls st st')))
          \<and> list_all (\<lambda>r. 2 \<le> r) (deletionsIn t (deletions (newCalls st st'))))"
proof -
  from batchDeleteRows_ordinary[OF assms, of st] obtain st' cs where
    r: "batchDeleteRows (Some items) st = Inr (card (set (validPairs items)), st')"
      "calls st' = calls (ensureSheetSetup st) @ cs"
      "\<forall>t. deletionsIn t (deletions cs) =
          (if sheets (ensureSheetSetup st) t \<noteq> None
           then map nat (sortedDescending (rowsFor t (validPairs items))) else [])"
    by blast
  have new: "deletions (newCalls st st') = deletions cs"
    by (simp add: newCalls_def r(2) calls_ensureSheetSetup)
  have per: "deletionsIn t (deletions (newCalls st st')) =
            (if t \<in> set SHEET_NAMES \<or> sheets st t \<noteq> None
             then map nat (sortedDescending (rowsFor t (validPairs items))) else [])" for t
    unfolding new using r(3)[rule_format, of t] by (simp only: exists_after_setup)
  have ge: "\<forall>r\<in>set (sortedDescending (rowsFor t (validPairs items))). 2 \<le> r" for t
    by (simp add: rowsFor_at_least_2)
  have desc: "sorted_wrt (\<lambda>a b. b < a) (map nat (sortedDescending (rowsFor t (validPairs items))))" for t
  proof (rule descending_nat[OF sortedDescending_strict])
    show "\<forall>r\<in>set (sortedDescending (rowsFor t (validPairs items))). 0 \<le> r"
      using ge[of t] by auto
  qed
  have two: "list_all (\<lambda>r. 2 \<le> r) (map nat (sortedDescending (rowsFor t (validPairs items))))" for t
    using ge[of t] by (auto simp: list_all_iff)
  have "sorted_wrt (\<lambda>a b. b < a) (deletionsIn t (deletions (newCalls st st')))
      \<and> list_all (\<lambda>r. 2 \<le> r) (deletionsIn t (deletions (newCalls st st')))" for t
    unfolding per using desc[of t] two[of t] by simp
  with r(1) per show ?thesis by blast
qed

lemma batchDeleteRows_nothing:
  "batchDeleteRows None st = Inr (0, ensureSheetSetup st)"
  "batchDeleteRows (Some []) st = Inr (0, ensureSheetSetup st)"
  "deletions (newCalls st (ensureSheetSetup st)) = []"
  by (simp_all add: batchDeleteRows_def newCalls_ensureSheetSetup)

text \<open>
  The example of the specification: the rows 2, 5 and 3 of one tab are deleted in the
  order 5, 3, 2.
\<close>

lemma batchDeleteRows_example:
  "\<exists>st'. batchDeleteRows (Some exampleItems) st = Inr (3, st')
     \<and> deletionsIn MONADIANS (deletions (newCalls st st')) = [5, 3, 2]"
proof -
  have vp: "validPairs exampleItems = [(MONADIANS, 2), (MONADIANS, 5), (MONADIANS, 3)]"
    by (simp add: exampleItems_def validPair_def MONADIANS_def)
  have ord: "list_all (\<lambda>p. fst p \<notin> set Object_prototype_keys) (validPairs exampleItems)"
    unfolding vp by (simp add: MONADIANS_def Object_prototype_keys_def)
  have c: "card (set (validPairs exampleItems)) = 3"
    unfolding vp by simp
  have s: "map nat (sortedDescending (rowsFor MONADIANS (validPairs exampleItems))) = [5, 3, 2]"
    unfolding vp by (simp add: rowsFor_Cons sortedDescending_def)
  from batchDeleteRows_valid_items[OF ord, of st] obtain st' where
    "batchDeleteRows (Some exampleItems) st = Inr (card (set (validPairs exampleItems)), st')"
    "deletionsIn MONADIANS (deletions (newCalls st st')) =
       (if MONADIANS \<in> set SHEET_NAMES \<or> sheets st MONADIANS \<noteq> None
        then map nat (sortedDescending (rowsFor MONADIANS (validPairs exampleItems))) else [])"
    by blast
  then show ?thesis
    unfolding c s by (simp add: SHEET_NAMES_def)
qed

text \<open>
  Claim C10, at a failing input. For an item whose sheet name is \<open>constructor\<close>, a
  property that the object \<^verbatim>\<open>bySheet\<close> inherits, \<^verbatim>\<open>batchDeleteRows\<close> throws a
  TypeError after \<^verbatim>\<open>ensureSheetSetup\<close> and returns no count.
\<close>

theorem batchDeleteRows_inherited_key:
  "batchDeleteRows (Some [\<lparr>del_sheetName = Some ''constructor'', del_rowNumber = Some 2\<rparr>]) st
     = Inl (TypeError, ensureSheetSetup st)"
  by (simp add: batchDeleteRows_def groupItem_def Object_prototype_keys_def)

end
